theory Spec2Isabelle
  imports Main "HOL-Library.Word"
begin

unbundle bit_operations_syntax

section \<open>Go strings\<close>

text \<open>
  A Go string is a sequence of bytes: \<open>string\<close> (a \<open>char list\<close>) here. The functions
  of package \<open>strings\<close> that the two stages call are written out on bytes. Go's
  \<open>ToLower\<close> and \<open>TrimSpace\<close> have a byte-wise path for strings that are
  ASCII only and fall back to the Unicode tables otherwise; the fall-back is a parameter
  of the development (\<open>unicode_ToLower\<close>, \<open>unicode_TrimSpace\<close> below), the ASCII path
  is written out.
\<close>

definition byte :: "char \<Rightarrow> int" where
  "byte c = of_char c"

definition isASCII :: "string \<Rightarrow> bool" where
  "isASCII s = list_all (\<lambda>c. byte c < 128) s"

definition isUpper :: "char \<Rightarrow> bool" where
  "isUpper c = (byte (CHR ''A'') \<le> byte c \<and> byte c \<le> byte (CHR ''Z''))"

text \<open>\<open>c += 'a' - 'A'\<close> on an upper-case ASCII byte.\<close>

definition lowerASCII :: "char \<Rightarrow> char" where
  "lowerASCII c = (if isUpper c then char_of (byte c + (byte (CHR ''a'') - byte (CHR ''A''))) else c)"

text \<open>\<open>asciiSpace\<close>: tab, line feed, vertical tab, form feed, carriage return, space.\<close>

definition asciiSpace :: "char \<Rightarrow> bool" where
  "asciiSpace c = (byte c = 9 \<or> byte c = 10 \<or> byte c = 11 \<or> byte c = 12 \<or> byte c = 13 \<or> byte c = 32)"

text \<open>
  \<open>strings.Trim(s, cutset)\<close> for a cutset of ASCII bytes (the only cutset used is
  \<open>"."\<close>): every leading and every trailing byte of the cutset is removed.
\<close>

definition strings_Trim :: "string \<Rightarrow> string \<Rightarrow> string" where
  "strings_Trim s cutset =
     rev (dropWhile (\<lambda>c. c \<in> set cutset) (rev (dropWhile (\<lambda>c. c \<in> set cutset) s)))"

text \<open>\<open>strings.Split(s, sep)\<close> for a separator of one byte: never the empty list.\<close>

fun strings_Split :: "string \<Rightarrow> char \<Rightarrow> string list" where
  "strings_Split [] sep = [[]]"
| "strings_Split (x # xs) sep =
     (if x = sep then [] # strings_Split xs sep
      else (case strings_Split xs sep of [] \<Rightarrow> [[x]] | w # ws \<Rightarrow> (x # w) # ws))"

fun strings_Join :: "string list \<Rightarrow> string \<Rightarrow> string" where
  "strings_Join [] sep = []"
| "strings_Join [x] sep = x"
| "strings_Join (x # y # ys) sep = x @ sep @ strings_Join (y # ys) sep"

text \<open>
  \<open>resolve.RemoveLastDot\<close> (package caffix/resolve): the name without its last byte
  when that byte is a dot.
\<close>

definition RemoveLastDot :: "string \<Rightarrow> string" where
  "RemoveLastDot name = (if name \<noteq> [] \<and> last name = CHR ''.'' then butlast name else name)"

section \<open>Requests and records\<close>

text \<open>
  The request types of package \<open>requests\<close>, with the fields the spec's data model
  gives them. Field names carry the type's prefix, since the Go structs share the names
  \<open>Name\<close>, \<open>Domain\<close>, \<open>Tag\<close> and \<open>Source\<close>.
\<close>

record DNSAnswer =
  ans_Name :: string
  ans_Type :: int
  ans_Data :: string

record DNSRequest =
  dns_Name :: string
  dns_Domain :: string
  dns_Records :: "DNSAnswer list"
  dns_Tag :: string
  dns_Source :: string

record AddrRequest =
  addr_Address :: string
  addr_InScope :: bool
  addr_Domain :: string
  addr_Tag :: string
  addr_Source :: string

record SubdomainRequest =
  sub_Name :: string
  sub_Domain :: string
  sub_Tag :: string
  sub_Source :: string
  sub_Times :: int

record ResolvedRequest =
  res_Name :: string
  res_Domain :: string
  res_Records :: "DNSAnswer list"
  res_Tag :: string
  res_Source :: string

record ASNRequest =
  asn_Address :: string
  asn_ASN :: int
  asn_Prefix :: string
  asn_Description :: string
  asn_Tag :: string
  asn_Source :: string

text \<open>
  \<open>pipeline.Data\<close> is an interface value. The stages switch on its dynamic type; a
  \<open>*DNSRequest\<close> or \<open>*AddrRequest\<close> may be a nil pointer (\<open>None\<close>).
\<close>

datatype data =
    DNSData "DNSRequest option"
  | AddrData "AddrRequest option"
  | SubdomainData SubdomainRequest
  | ResolvedData ResolvedRequest
  | ASNData ASNRequest
  | OtherData nat

text \<open>A \<open>context.Context\<close> is known by its identity; whether it is done is asked of the environment.\<close>

type_synonym ctx = nat

text \<open>The record types of miekg/dns that the data manager dispatches on, and the response codes.\<close>

definition TypeA :: int where "TypeA = 1"
definition TypeNS :: int where "TypeNS = 2"
definition TypeCNAME :: int where "TypeCNAME = 5"
definition TypeSOA :: int where "TypeSOA = 6"
definition TypePTR :: int where "TypePTR = 12"
definition TypeMX :: int where "TypeMX = 15"
definition TypeTXT :: int where "TypeTXT = 16"
definition TypeAAAA :: int where "TypeAAAA = 28"
definition TypeSRV :: int where "TypeSRV = 33"
definition TypeSPF :: int where "TypeSPF = 99"

definition RcodeSuccess :: int where "RcodeSuccess = 0"
definition RcodeNameError :: int where "RcodeNameError = 3"

text \<open>The conversion \<open>uint16(r.Type)\<close> of a Go \<open>int\<close> keeps the low 16 bits.\<close>

definition uint16 :: "int \<Rightarrow> int" where
  "uint16 n = n mod 65536"

text \<open>A DNS response as far as the classifier reads it: the response code and the answer section.\<close>

record dns_Msg =
  Rcode :: int
  Answer :: "string list"

text \<open>\<open>resolve.QueryMsg(name, qtype)\<close>: the question asked.\<close>

type_synonym query = "string \<times> int"

definition QueryMsg :: "string \<Rightarrow> int \<Rightarrow> query" where
  "QueryMsg name qtype = (name, qtype)"

section \<open>The collaborators and the log of calls made to them\<close>

text \<open>
  The stages act on the world only through calls to their collaborators: the graph store,
  the seed source, the ASN cache, the resolver pools, the logger, the dedup filter. Every
  such call is an \<open>event\<close>; a run of a stage function takes the list of events so far
  and returns it extended, in the order the code makes the calls. What a collaborator
  answers is a function of the events before the call, so the same question may be
  answered differently at different times (a cache that fills, a context that is
  cancelled, a resolver that fails and then succeeds).
\<close>

datatype graph_call =
    UpsertCNAME ctx string string string string
  | UpsertA ctx string string string string
  | UpsertAAAA ctx string string string string
  | UpsertPTR ctx string string string string
  | UpsertSRV ctx string string string string string
  | UpsertNS ctx string string string string
  | UpsertMX ctx string string string string
  | UpsertInfrastructure ctx int string string string string string

datatype pool = General | Trusted

datatype event =
    CtxDone ctx
  | PipelineData ctx data
  | CheckForMissedWildcards string
  | Graph graph_call
  | IsCNAMENode ctx string
  | LogPrint string
  | FilterTestAndAdd string
  | CacheAddrSearch string
  | CacheUpdate ASNRequest
  | SendRequests data
  | SendData ctx string data
  | Sleep
  | QueryBlocking pool ctx query
  | WildcardDetected ctx dns_Msg string

type_synonym history = "event list"

text \<open>A \<open>net.IP\<close> and a \<open>net.IPMask\<close> are byte slices; nil is the empty list.\<close>

type_synonym IP = "8 word list"

text \<open>
  What the code reaches through \<open>dm.enum\<close> and \<open>r.enum\<close>, and the library functions
  whose text is not part of the repository:
  \<^item> the configuration: \<open>Blacklisted\<close>, \<open>IsDomainInScope\<close>, \<open>WhichDomain\<close>, the session
    \<open>UUID\<close> as a string, \<open>MinForRecursive\<close>;
  \<^item> the graph: its \<open>String()\<close>, the error (if any) of an upsert, \<open>IsCNAMENode\<close>;
  \<^item> \<open>ctx_Done\<close>: whether \<open>ctx.Done()\<close> is closed when polled;
  \<^item> \<open>publicsuffix.EffectiveTLDPlusOne\<close>, \<open>None\<close> for an error;
  \<^item> the dedup filter's \<open>TestAndAdd\<close>, the ASN cache's \<open>AddrSearch\<close>;
  \<^item> \<open>amassnet.IsReservedAddress\<close>, the two regular expressions' \<open>FindAllString\<close>;
  \<^item> the resolver pools and the trusted pool's wildcard detector;
  \<^item> the package variables \<open>InitialQueryTypes\<close>, \<open>requests.DNS\<close>, \<open>requests.RIR\<close>;
  \<^item> package \<open>net\<close>'s conversions between text and addresses, and \<open>amassnet.IsIPv6\<close>.
\<close>

record Enumeration =
  Blacklisted :: "string \<Rightarrow> bool"
  IsDomainInScope :: "string \<Rightarrow> bool"
  WhichDomain :: "string \<Rightarrow> string"
  UUID :: string
  MinForRecursive :: int
  graph_String :: string
  graph_Upsert :: "history \<Rightarrow> graph_call \<Rightarrow> string option"
  graph_IsCNAMENode :: "history \<Rightarrow> ctx \<Rightarrow> string \<Rightarrow> bool"
  ctx_Done :: "history \<Rightarrow> ctx \<Rightarrow> bool"
  EffectiveTLDPlusOne :: "string \<Rightarrow> string option"
  filter_TestAndAdd :: "history \<Rightarrow> string \<Rightarrow> bool"
  Cache_AddrSearch :: "history \<Rightarrow> string \<Rightarrow> ASNRequest option"
  IsReservedAddress :: "string \<Rightarrow> bool \<times> string"
  IPv4RE_FindAllString :: "string \<Rightarrow> string list"
  AnySubdomainRegex_FindAllString :: "string \<Rightarrow> string list"
  Resolvers_QueryBlocking :: "history \<Rightarrow> ctx \<Rightarrow> query \<Rightarrow> string + dns_Msg"
  TrustedResolvers_QueryBlocking :: "history \<Rightarrow> ctx \<Rightarrow> query \<Rightarrow> string + dns_Msg"
  TrustedResolvers_WildcardDetected :: "history \<Rightarrow> ctx \<Rightarrow> dns_Msg \<Rightarrow> string \<Rightarrow> bool"
  InitialQueryTypes :: "int list"
  requests_DNS :: string
  requests_RIR :: string
  unicode_ToLower :: "string \<Rightarrow> string"
  unicode_TrimSpace :: "string \<Rightarrow> string"
  net_ParseIP :: "string \<Rightarrow> IP"
  net_IP_String :: "IP \<Rightarrow> string"
  net_ParseCIDR :: "string \<Rightarrow> (IP \<times> IP \<times> IP) option"
  IsIPv6 :: "IP \<Rightarrow> bool"

definition strings_ToLower :: "Enumeration \<Rightarrow> string \<Rightarrow> string" where
  "strings_ToLower e s = (if isASCII s then map lowerASCII s else unicode_ToLower e s)"

definition strings_TrimSpace :: "Enumeration \<Rightarrow> string \<Rightarrow> string" where
  "strings_TrimSpace e s =
     (if isASCII s then rev (dropWhile asciiSpace (rev (dropWhile asciiSpace s)))
      else unicode_TrimSpace e s)"

section \<open>The data manager\<close>

text \<open>
  \<open>dataManager\<close>: the fields of the stage that the code below changes. The queue of
  package caffix/queue is first in, first out: \<open>Append\<close> adds at the end, \<open>Next\<close>
  takes the head. A queued request is never nil: \<open>addrRequest\<close> returns on a nil
  request before it appends. The task parameters \<open>tp\<close> are handed on to the pipeline
  helpers untouched and are left out.
\<close>

record queuedAddrRequest =
  Ctx :: ctx
  Req :: AddrRequest

record dataManager =
  queue :: "queuedAddrRequest list"

text \<open>
  The \<open>insert\<close> functions read \<open>req.Records[recidx]\<close>; they are called with the index
  of the loop only, which is in range.
\<close>

definition insertCNAME :: "Enumeration \<Rightarrow> ctx \<Rightarrow> DNSRequest \<Rightarrow> nat \<Rightarrow> history \<Rightarrow> string option \<times> history" where
  "insertCNAME e ctx req recidx h =
     (let target = RemoveLastDot (ans_Data (dns_Records req ! recidx)) in
      if target = [] then (Some ''failed to extract a FQDN from the DNS answer data'', h)
      else (case EffectiveTLDPlusOne e target of
          None \<Rightarrow> (Some ''failed to extract a domain name from the FQDN'', h)
        | Some domain \<Rightarrow>
            if domain = [] then (Some ''failed to extract a domain name from the FQDN'', h)
            else
              (let h1 = h @ [PipelineData ctx (DNSData (Some
                     \<lparr>dns_Name = target, dns_Domain = strings_ToLower e domain, dns_Records = [],
                      dns_Tag = requests_DNS e, dns_Source = ''DNS''\<rparr>))];
                   c = UpsertCNAME ctx (dns_Name req) target (dns_Source req) (UUID e)
               in (case graph_Upsert e h1 c of
                     Some err \<Rightarrow> (Some (graph_String e @ '' failed to insert CNAME: '' @ err), h1 @ [Graph c])
                   | None \<Rightarrow> (None, h1 @ [Graph c])))))"

definition insertA :: "Enumeration \<Rightarrow> ctx \<Rightarrow> DNSRequest \<Rightarrow> nat \<Rightarrow> history \<Rightarrow> string option \<times> history" where
  "insertA e ctx req recidx h =
     (let addr = strings_TrimSpace e (ans_Data (dns_Records req ! recidx)) in
      if addr = [] then (Some ''failed to extract an IP address from the DNS answer data'', h)
      else
        (let h1 = h @ [CheckForMissedWildcards addr];
             h2 = h1 @ [PipelineData ctx (AddrData (Some
                    \<lparr>addr_Address = addr, addr_InScope = True, addr_Domain = dns_Domain req,
                     addr_Tag = requests_DNS e, addr_Source = ''DNS''\<rparr>))];
             c = UpsertA ctx (dns_Name req) addr (dns_Source req) (UUID e)
         in (case graph_Upsert e h2 c of
               Some err \<Rightarrow> (Some (graph_String e @ '' failed to insert A record: '' @ err), h2 @ [Graph c])
             | None \<Rightarrow> (None, h2 @ [Graph c]))))"

definition insertAAAA :: "Enumeration \<Rightarrow> ctx \<Rightarrow> DNSRequest \<Rightarrow> nat \<Rightarrow> history \<Rightarrow> string option \<times> history" where
  "insertAAAA e ctx req recidx h =
     (let addr = strings_TrimSpace e (ans_Data (dns_Records req ! recidx)) in
      if addr = [] then (Some ''failed to extract an IP address from the DNS answer data'', h)
      else
        (let h1 = h @ [CheckForMissedWildcards addr];
             h2 = h1 @ [PipelineData ctx (AddrData (Some
                    \<lparr>addr_Address = addr, addr_InScope = True, addr_Domain = dns_Domain req,
                     addr_Tag = requests_DNS e, addr_Source = ''DNS''\<rparr>))];
             c = UpsertAAAA ctx (dns_Name req) addr (dns_Source req) (UUID e)
         in (case graph_Upsert e h2 c of
               Some err \<Rightarrow> (Some (graph_String e @ '' failed to insert AAAA record: '' @ err), h2 @ [Graph c])
             | None \<Rightarrow> (None, h2 @ [Graph c]))))"

definition insertPTR :: "Enumeration \<Rightarrow> ctx \<Rightarrow> DNSRequest \<Rightarrow> nat \<Rightarrow> history \<Rightarrow> string option \<times> history" where
  "insertPTR e ctx req recidx h =
     (let target = RemoveLastDot (ans_Data (dns_Records req ! recidx)) in
      if target = [] then (Some ''failed to extract a FQDN from the DNS answer data'', h)
      else
        (let domain = strings_ToLower e (WhichDomain e target) in
         if domain = [] then (None, h)
         else
           (let h1 = h @ [PipelineData ctx (DNSData (Some
                  \<lparr>dns_Name = target, dns_Domain = domain, dns_Records = [],
                   dns_Tag = requests_DNS e, dns_Source = ''Reverse DNS''\<rparr>))];
                c = UpsertPTR ctx (dns_Name req) target (dns_Source req) (UUID e)
            in (case graph_Upsert e h1 c of
                  Some err \<Rightarrow> (Some (graph_String e @ '' failed to insert PTR record: '' @ err), h1 @ [Graph c])
                | None \<Rightarrow> (None, h1 @ [Graph c])))))"

definition insertSRV :: "Enumeration \<Rightarrow> ctx \<Rightarrow> DNSRequest \<Rightarrow> nat \<Rightarrow> history \<Rightarrow> string option \<times> history" where
  "insertSRV e ctx req recidx h =
     (let service = RemoveLastDot (ans_Name (dns_Records req ! recidx));
          target = RemoveLastDot (ans_Data (dns_Records req ! recidx)) in
      if target = [] \<or> service = [] then
        (Some ''failed to extract service info from the DNS answer data'', h)
      else
        (let domain = WhichDomain e target;
             h1 = (if domain \<noteq> [] then
                     h @ [PipelineData ctx (DNSData (Some
                       \<lparr>dns_Name = target, dns_Domain = domain, dns_Records = [],
                        dns_Tag = requests_DNS e, dns_Source = ''DNS''\<rparr>))]
                   else h);
             c = UpsertSRV ctx (dns_Name req) service target (dns_Source req) (UUID e)
         in (case graph_Upsert e h1 c of
               Some err \<Rightarrow> (Some (graph_String e @ '' failed to insert SRV record: '' @ err), h1 @ [Graph c])
             | None \<Rightarrow> (None, h1 @ [Graph c]))))"

definition insertNS :: "Enumeration \<Rightarrow> ctx \<Rightarrow> DNSRequest \<Rightarrow> nat \<Rightarrow> history \<Rightarrow> string option \<times> history" where
  "insertNS e ctx req recidx h =
     (let target = ans_Data (dns_Records req ! recidx) in
      if target = [] then (Some ''failed to extract NS info from the DNS answer data'', h)
      else (case EffectiveTLDPlusOne e target of
          None \<Rightarrow> (Some ''failed to extract a domain name from the FQDN'', h)
        | Some domain \<Rightarrow>
            if domain = [] then (Some ''failed to extract a domain name from the FQDN'', h)
            else
              (let d = strings_ToLower e domain;
                   h1 = (if target \<noteq> d then
                           h @ [PipelineData ctx (DNSData (Some
                             \<lparr>dns_Name = target, dns_Domain = d, dns_Records = [],
                              dns_Tag = requests_DNS e, dns_Source = ''DNS''\<rparr>))]
                         else h);
                   c = UpsertNS ctx (dns_Name req) target (dns_Source req) (UUID e)
               in (case graph_Upsert e h1 c of
                     Some err \<Rightarrow> (Some (graph_String e @ '' failed to insert NS record: '' @ err), h1 @ [Graph c])
                   | None \<Rightarrow> (None, h1 @ [Graph c])))))"

definition insertMX :: "Enumeration \<Rightarrow> ctx \<Rightarrow> DNSRequest \<Rightarrow> nat \<Rightarrow> history \<Rightarrow> string option \<times> history" where
  "insertMX e ctx req recidx h =
     (let target = RemoveLastDot (ans_Data (dns_Records req ! recidx)) in
      if target = [] then (Some ''failed to extract a FQDN from the DNS answer data'', h)
      else (case EffectiveTLDPlusOne e target of
          None \<Rightarrow> (Some ''failed to extract a domain name from the FQDN'', h)
        | Some domain \<Rightarrow>
            if domain = [] then (Some ''failed to extract a domain name from the FQDN'', h)
            else
              (let d = strings_ToLower e domain;
                   h1 = (if target \<noteq> d then
                           h @ [PipelineData ctx (DNSData (Some
                             \<lparr>dns_Name = target, dns_Domain = d, dns_Records = [],
                              dns_Tag = requests_DNS e, dns_Source = ''DNS''\<rparr>))]
                         else h);
                   c = UpsertMX ctx (dns_Name req) target (dns_Source req) (UUID e)
               in (case graph_Upsert e h1 c of
                     Some err \<Rightarrow> (Some (graph_String e @ '' failed to insert MX record: '' @ err), h1 @ [Graph c])
                   | None \<Rightarrow> (None, h1 @ [Graph c])))))"

text \<open>
  \<open>findNamesAndAddresses\<close>: one re-injection for each match of the IPv4 expression, then
  one for each match of the subdomain expression that \<open>WhichDomain\<close> places in scope. The
  \<open>AddrRequest\<close> literal does not set \<open>InScope\<close>, which leaves it \<open>false\<close>.
\<close>

definition findNamesAndAddresses :: "Enumeration \<Rightarrow> ctx \<Rightarrow> string \<Rightarrow> string \<Rightarrow> history \<Rightarrow> history" where
  "findNamesAndAddresses e ctx data' domain h =
     h @ map (\<lambda>ip. PipelineData ctx (AddrData (Some
              \<lparr>addr_Address = ip, addr_InScope = False, addr_Domain = domain,
               addr_Tag = requests_DNS e, addr_Source = ''DNS''\<rparr>)))
           (IPv4RE_FindAllString e data')
       @ map (\<lambda>name. PipelineData ctx (DNSData (Some
              \<lparr>dns_Name = name, dns_Domain = strings_ToLower e (WhichDomain e name), dns_Records = [],
               dns_Tag = requests_DNS e, dns_Source = ''DNS''\<rparr>)))
           (filter (\<lambda>name. strings_ToLower e (WhichDomain e name) \<noteq> [])
              (AnySubdomainRegex_FindAllString e data'))"

definition insertTXT :: "Enumeration \<Rightarrow> ctx \<Rightarrow> DNSRequest \<Rightarrow> nat \<Rightarrow> history \<Rightarrow> string option \<times> history" where
  "insertTXT e ctx req recidx h =
     (if IsDomainInScope e (dns_Name req) then
        (None, findNamesAndAddresses e ctx (ans_Data (dns_Records req ! recidx)) (dns_Domain req) h)
      else (None, h))"

definition insertSOA :: "Enumeration \<Rightarrow> ctx \<Rightarrow> DNSRequest \<Rightarrow> nat \<Rightarrow> history \<Rightarrow> string option \<times> history" where
  "insertSOA e ctx req recidx h =
     (if IsDomainInScope e (dns_Name req) then
        (None, findNamesAndAddresses e ctx (ans_Data (dns_Records req ! recidx)) (dns_Domain req) h)
      else (None, h))"

definition insertSPF :: "Enumeration \<Rightarrow> ctx \<Rightarrow> DNSRequest \<Rightarrow> nat \<Rightarrow> history \<Rightarrow> string option \<times> history" where
  "insertSPF e ctx req recidx h =
     (if IsDomainInScope e (dns_Name req) then
        (None, findNamesAndAddresses e ctx (ans_Data (dns_Records req ! recidx)) (dns_Domain req) h)
      else (None, h))"

text \<open>
  The first loop of \<open>dnsRequest\<close>. It overwrites \<open>req.Records[i]\<close> in place with the
  lower-cased, dot-trimmed name and data of the loop's copy \<open>r\<close>, and stops at the first
  record whose type is CNAME, whose index it returns.
\<close>

definition normalizeRecord :: "Enumeration \<Rightarrow> DNSAnswer \<Rightarrow> DNSAnswer" where
  "normalizeRecord e r =
     r\<lparr>ans_Name := strings_Trim (strings_ToLower e (ans_Name r)) ''.'',
       ans_Data := strings_Trim (strings_ToLower e (ans_Data r)) ''.''\<rparr>"

function checkCNAME :: "Enumeration \<Rightarrow> DNSAnswer list \<Rightarrow> nat \<Rightarrow> DNSAnswer list \<times> nat option" where
  "checkCNAME e recs i =
     (if i < length recs then
        (let r = recs ! i;
             recs' = recs[i := normalizeRecord e r]
         in if uint16 (ans_Type r) = TypeCNAME then (recs', Some i)
            else checkCNAME e recs' (i + 1))
      else (recs, None))"
  by pat_completeness auto
termination
  by (relation "measure (\<lambda>(e, recs, i). length recs - i)") auto

text \<open>The \<open>switch\<close> of the second loop: a type outside the nine cases leaves \<open>err\<close> nil.\<close>

definition switchType :: "Enumeration \<Rightarrow> ctx \<Rightarrow> DNSRequest \<Rightarrow> nat \<Rightarrow> history \<Rightarrow> string option \<times> history" where
  "switchType e ctx req i h =
     (let t = uint16 (ans_Type (dns_Records req ! i)) in
      if t = TypeA then insertA e ctx req i h
      else if t = TypeAAAA then insertAAAA e ctx req i h
      else if t = TypePTR then insertPTR e ctx req i h
      else if t = TypeSRV then insertSRV e ctx req i h
      else if t = TypeNS then insertNS e ctx req i h
      else if t = TypeMX then insertMX e ctx req i h
      else if t = TypeTXT then insertTXT e ctx req i h
      else if t = TypeSOA then insertSOA e ctx req i h
      else if t = TypeSPF then insertSPF e ctx req i h
      else (None, h))"

text \<open>
  The second loop: before each record the context is polled (a done context returns nil);
  the first error ends the loop and is returned.
\<close>

function insertRecords :: "Enumeration \<Rightarrow> ctx \<Rightarrow> DNSRequest \<Rightarrow> nat \<Rightarrow> history \<Rightarrow> string option \<times> history" where
  "insertRecords e ctx req i h =
     (if i < length (dns_Records req) then
        (if ctx_Done e h ctx then (None, h @ [CtxDone ctx])
         else (case switchType e ctx req i (h @ [CtxDone ctx]) of
                 (Some err, h') \<Rightarrow> (Some err, h')
               | (None, h') \<Rightarrow> insertRecords e ctx req (i + 1) h'))
      else (None, h))"
  by pat_completeness auto
termination
  by (relation "measure (\<lambda>(e, ctx, req, i, h). length (dns_Records req) - i)") auto

text \<open>
  \<open>dnsRequest\<close> returns the request as the loops leave it (the records are rewritten in
  the caller's own request), the error, and the events.
\<close>

definition dnsRequest :: "Enumeration \<Rightarrow> ctx \<Rightarrow> DNSRequest \<Rightarrow> history \<Rightarrow> DNSRequest \<times> string option \<times> history" where
  "dnsRequest e ctx req h =
     (if Blacklisted e (dns_Name req) then (req, None, h)
      else (case checkCNAME e (dns_Records req) 0 of
          (recs, Some i) \<Rightarrow>
            (let req' = req\<lparr>dns_Records := recs\<rparr> in
             case insertCNAME e ctx req' i h of (err, h') \<Rightarrow> (req', err, h'))
        | (recs, None) \<Rightarrow>
            (let req' = req\<lparr>dns_Records := recs\<rparr> in
             case insertRecords e ctx req' 0 h of (err, h') \<Rightarrow> (req', err, h'))))"

text \<open>Modelled from the spec: \<open>amassnet.ReservedCIDRDescription\<close>, the description of a reserved range.\<close>

definition ReservedCIDRDescription :: string where
  "ReservedCIDRDescription = ''Reserved Network Address Blocks''"

definition addrRequest :: "Enumeration \<Rightarrow> ctx \<Rightarrow> AddrRequest option \<Rightarrow> dataManager \<Rightarrow> history \<Rightarrow> string option \<times> dataManager \<times> history" where
  "addrRequest e ctx req dm h =
     (let h0 = h @ [CtxDone ctx] in
      if ctx_Done e h ctx then (None, dm, h0)
      else (case req of
          None \<Rightarrow> (None, dm, h0)
        | Some r \<Rightarrow>
            if \<not> addr_InScope r \<or> UUID e = [] then (None, dm, h0)
            else (case IsReservedAddress e (addr_Address r) of
                (True, prefix) \<Rightarrow>
                  (let c = UpsertInfrastructure ctx 0 ReservedCIDRDescription (addr_Address r) prefix ''RIR'' (UUID e)
                   in (graph_Upsert e h0 c, dm, h0 @ [Graph c]))
              | (False, prefix) \<Rightarrow>
                  (let h1 = h0 @ [CacheAddrSearch (addr_Address r)] in
                   case Cache_AddrSearch e h0 (addr_Address r) of
                     Some a \<Rightarrow>
                       (let c = UpsertInfrastructure ctx (asn_ASN a) (asn_Description a) (addr_Address r)
                                  (asn_Prefix a) (asn_Source a) (UUID e)
                        in (graph_Upsert e h1 c, dm, h1 @ [Graph c]))
                   | None \<Rightarrow>
                       (None, dm\<lparr>queue := queue dm @ [\<lparr>Ctx = ctx, Req = r\<rparr>]\<rparr>, h1)))))"

text \<open>
  \<open>Process\<close> of the data manager returns the datum to forward (\<open>None\<close> for nil) and the
  error, which is nil on every path. The filter is asked only for a non-empty identifier.
\<close>

definition filterStep :: "Enumeration \<Rightarrow> string \<Rightarrow> data \<Rightarrow> history \<Rightarrow> (data option \<times> string option) \<times> history" where
  "filterStep e id' d h =
     (if id' \<noteq> [] then
        (if filter_TestAndAdd e h id' then ((None, None), h @ [FilterTestAndAdd id'])
         else ((Some d, None), h @ [FilterTestAndAdd id']))
      else ((Some d, None), h))"

definition logError :: "string option \<Rightarrow> history \<Rightarrow> history" where
  "logError err h = (case err of Some m \<Rightarrow> h @ [LogPrint m] | None \<Rightarrow> h)"

definition dataManager_Process :: "Enumeration \<Rightarrow> ctx \<Rightarrow> data \<Rightarrow> dataManager \<Rightarrow> history \<Rightarrow> (data option \<times> string option) \<times> dataManager \<times> history" where
  "dataManager_Process e ctx d dm h =
     (let h0 = h @ [CtxDone ctx] in
      if ctx_Done e h ctx then ((None, None), dm, h0)
      else (case d of
          DNSData None \<Rightarrow> ((None, None), dm, h0)
        | DNSData (Some v) \<Rightarrow>
            (case dnsRequest e ctx v h0 of
               (v', err, h1) \<Rightarrow>
                 (case filterStep e (dns_Name v) (DNSData (Some v')) (logError err h1) of
                    (out, h2) \<Rightarrow> (out, dm, h2)))
        | AddrData None \<Rightarrow> ((None, None), dm, h0)
        | AddrData (Some v) \<Rightarrow>
            (case addrRequest e ctx (Some v) dm h0 of
               (err, dm', h1) \<Rightarrow>
                 (case filterStep e (addr_Address v) (AddrData (Some v)) (logError err h1) of
                    (out, h2) \<Rightarrow> (out, dm', h2)))
        | _ \<Rightarrow> ((Some d, None), dm, h0)))"

section \<open>The ASN worker\<close>




















section \<open>The subdomain classifier\<close>

text \<open>
  \<open>subdomainTask\<close>: the two string sets and the map that the times manager owns. A set
  of package caffix/stringset keeps and looks up its elements lower-cased.
\<close>

record subdomainTask =
  cnames :: "string set"
  withinWildcards :: "string set"
  subdomains :: "string \<rightharpoonup> int"

definition stringset_Insert :: "Enumeration \<Rightarrow> string set \<Rightarrow> string \<Rightarrow> string set" where
  "stringset_Insert e s element = insert (strings_ToLower e element) s"

definition stringset_Has :: "Enumeration \<Rightarrow> string set \<Rightarrow> string \<Rightarrow> bool" where
  "stringset_Has e s element = (strings_ToLower e element \<in> s)"

text \<open>
  \<open>timesForSubdomain\<close> with the answer of \<open>timesManager\<close>: the count of a name seen
  before plus one, 1 for a new name; the map keeps the count returned. The count is a Go
  \<open>int\<close> that grows by one with each request; it is an \<open>int\<close> here, without the
  wrap-around at 64 bits, which no run reaches.
\<close>

definition timesForSubdomain :: "string \<Rightarrow> subdomainTask \<Rightarrow> int \<times> subdomainTask" where
  "timesForSubdomain sub r =
     (let times' = (case subdomains r sub of Some n \<Rightarrow> n + 1 | None \<Rightarrow> 1)
      in (times', r\<lparr>subdomains := (subdomains r)(sub \<mapsto> times')\<rparr>))"

text \<open>
  The retry loop of \<open>fwdQuery\<close>. The source has it twice, after the first query of the
  general pool and after the first query of the trusted pool, and both copies send the
  query again through \<open>Resolvers()\<close>, the general pool.
\<close>

function retryQuery :: "Enumeration \<Rightarrow> ctx \<Rightarrow> query \<Rightarrow> int \<Rightarrow> dns_Msg \<Rightarrow> history \<Rightarrow> (string + dns_Msg) \<times> history" where
  "retryQuery e ctx msg attempts resp h =
     (if attempts < 50 \<and> Rcode resp \<noteq> RcodeSuccess then
        (case Resolvers_QueryBlocking e h ctx msg of
           Inl err \<Rightarrow> (Inl ''name does not exist'', h @ [QueryBlocking General ctx msg])
         | Inr resp' \<Rightarrow>
             if Rcode resp' = RcodeNameError then
               (Inl ''name does not exist'', h @ [QueryBlocking General ctx msg])
             else if Rcode resp' = RcodeSuccess \<and> length (Answer resp') = 0 then
               (Inl ''zero answers returned'', h @ [QueryBlocking General ctx msg])
             else retryQuery e ctx msg (attempts + 1) resp' (h @ [QueryBlocking General ctx msg]))
      else (Inr resp, h))"
  by pat_completeness auto
termination
  by (relation "measure (\<lambda>(e, ctx, msg, attempts, resp, h). nat (50 - attempts))") auto

definition fwdQuery :: "Enumeration \<Rightarrow> ctx \<Rightarrow> string \<Rightarrow> int \<Rightarrow> history \<Rightarrow> (string + dns_Msg) \<times> history" where
  "fwdQuery e ctx name qtype h =
     (let msg = QueryMsg name qtype;
          h1 = h @ [QueryBlocking General ctx msg]
      in case Resolvers_QueryBlocking e h ctx msg of
           Inl err \<Rightarrow> (Inl ''name does not exist'', h1)
         | Inr resp \<Rightarrow>
             if Rcode resp = RcodeNameError then (Inl ''name does not exist'', h1)
             else if Rcode resp = RcodeSuccess \<and> length (Answer resp) = 0 then (Inl ''zero answers returned'', h1)
             else (case retryQuery e ctx msg 1 resp h1 of
                     (Inl err, h2) \<Rightarrow> (Inl err, h2)
                   | (Inr resp2, h2) \<Rightarrow>
                       if Rcode resp2 \<noteq> RcodeSuccess then (Inl ''query failed'', h2)
                       else
                         (let h3 = h2 @ [QueryBlocking Trusted ctx msg]
                          in case TrustedResolvers_QueryBlocking e h2 ctx msg of
                               Inl err \<Rightarrow> (Inl ''name does not exist'', h3)
                             | Inr resp3 \<Rightarrow>
                                 if Rcode resp3 = RcodeNameError then (Inl ''name does not exist'', h3)
                                 else if Rcode resp3 = RcodeSuccess \<and> length (Answer resp3) = 0 then
                                   (Inl ''zero answers returned'', h3)
                                 else (case retryQuery e ctx msg 1 resp3 h3 of
                                         (Inl err, h4) \<Rightarrow> (Inl err, h4)
                                       | (Inr resp4, h4) \<Rightarrow>
                                           if Rcode resp4 \<noteq> RcodeSuccess then (Inl ''query failed'', h4)
                                           else (Inr resp4, h4)))))"

text \<open>
  \<open>subWithinWildcard\<close>, as a recursion over the query types still to try. The wildcard
  detector is called only for an answered response.
\<close>

fun subWithinWildcard' :: "Enumeration \<Rightarrow> ctx \<Rightarrow> string \<Rightarrow> string \<Rightarrow> int list \<Rightarrow> history \<Rightarrow> bool \<times> history" where
  "subWithinWildcard' e ctx name domain [] h = (False, h)"
| "subWithinWildcard' e ctx name domain (t # ts) h =
     (if ctx_Done e h ctx then (False, h @ [CtxDone ctx])
      else (case fwdQuery e ctx (''a.'' @ name) t (h @ [CtxDone ctx]) of
              (Inl err, h1) \<Rightarrow> subWithinWildcard' e ctx name domain ts h1
            | (Inr resp, h1) \<Rightarrow>
                if length (Answer resp) > 0 then
                  (if TrustedResolvers_WildcardDetected e h1 ctx resp domain
                   then (True, h1 @ [WildcardDetected ctx resp domain])
                   else subWithinWildcard' e ctx name domain ts (h1 @ [WildcardDetected ctx resp domain]))
                else subWithinWildcard' e ctx name domain ts h1))"

definition subWithinWildcard :: "Enumeration \<Rightarrow> ctx \<Rightarrow> string \<Rightarrow> string \<Rightarrow> history \<Rightarrow> bool \<times> history" where
  "subWithinWildcard e ctx name domain h = subWithinWildcard' e ctx name domain (InitialQueryTypes e) h"

text \<open>
  \<open>checkForSubdomains\<close>. The conditions of the \<open>else if\<close> chain are evaluated left to
  right and only as far as needed: the wildcard test and the graph's \<open>IsCNAMENode\<close> run
  only when \<open>times\<close> is 1.
\<close>

definition checkForSubdomains :: "Enumeration \<Rightarrow> ctx \<Rightarrow> DNSRequest \<Rightarrow> subdomainTask \<Rightarrow> history \<Rightarrow> bool \<times> subdomainTask \<times> history" where
  "checkForSubdomains e ctx req r h =
     (let nlabels = strings_Split (dns_Name req) (CHR ''.'') in
      if length nlabels < 2 then (False, r, h)
      else
        (let dlabels = strings_Split (dns_Domain req) (CHR ''.'') in
         if int (length nlabels) - 1 < int (length dlabels) then (False, r, h)
         else
           (let sub = strings_TrimSpace e (strings_Join (drop 1 nlabels) ''.'') in
            case timesForSubdomain sub r of
              (times', r1) \<Rightarrow>
                (case (if times' = 1 then subWithinWildcard e ctx sub (dns_Domain req) h else (False, h)) of
                   (wild, h1) \<Rightarrow>
                     if times' = 1 \<and> wild then
                       (False, r1\<lparr>withinWildcards := stringset_Insert e (withinWildcards r1) sub\<rparr>, h1)
                     else if times' > 1 \<and> stringset_Has e (withinWildcards r1) sub then (False, r1, h1)
                     else
                       (case (if times' = 1 then (graph_IsCNAMENode e h1 ctx sub, h1 @ [IsCNAMENode ctx sub])
                              else (False, h1)) of
                          (isCNAME, h2) \<Rightarrow>
                            if times' = 1 \<and> isCNAME then
                              (False, r1\<lparr>cnames := stringset_Insert e (cnames r1) sub\<rparr>, h2)
                            else if times' > 1 \<and> stringset_Has e (cnames r1) sub then (False, r1, h2)
                            else if times' > MinForRecursive e then (True, r1, h2)
                            else
                              (let subreq = \<lparr>sub_Name = sub, sub_Domain = dns_Domain req, sub_Tag = dns_Tag req,
                                             sub_Source = dns_Source req, sub_Times = times'\<rparr>;
                                   h3 = h2 @ [SendRequests (SubdomainData subreq)];
                                   h4 = (if times' = 1 then h3 @ [SendData ctx ''root'' (SubdomainData subreq)] else h3)
                               in (True, r1, h4)))))))"

definition serviceLabel :: "Enumeration \<Rightarrow> string \<Rightarrow> bool" where
  "serviceLabel e label =
     (let l = strings_ToLower e label in l = ''_tcp'' \<or> l = ''_udp'' \<or> l = ''_tls'')"

definition subdomainTask_Process :: "Enumeration \<Rightarrow> ctx \<Rightarrow> data \<Rightarrow> subdomainTask \<Rightarrow> history \<Rightarrow> (data option \<times> string option) \<times> subdomainTask \<times> history" where
  "subdomainTask_Process e ctx d r h =
     (let h0 = h @ [CtxDone ctx] in
      if ctx_Done e h ctx then ((None, None), r, h0)
      else (case d of
          DNSData None \<Rightarrow> ((None, None), r, h0)
        | DNSData (Some req) \<Rightarrow>
            if \<not> IsDomainInScope e (dns_Name req) then ((None, None), r, h0)
            else if list_ex (serviceLabel e) (strings_Split (dns_Name req) (CHR ''.'')) then ((None, None), r, h0)
            else (case checkForSubdomains e ctx req r h0 of
                    (True, r', h1) \<Rightarrow>
                      ((Some d, None), r',
                       h1 @ [SendRequests (ResolvedData
                              \<lparr>res_Name = dns_Name req, res_Domain = dns_Domain req, res_Records = dns_Records req,
                               res_Tag = dns_Tag req, res_Source = dns_Source req\<rparr>)])
                  | (False, r', h1) \<Rightarrow> ((Some d, None), r', h1))
        | _ \<Rightarrow> ((Some d, None), r, h0)))"

section \<open>A sample environment and sample requests\<close>

text \<open>
  A small environment to run the stages in: nothing is blacklisted, everything is in
  scope, the graph accepts every upsert, no context is done, the cache is empty, the
  filter remembers exactly the identifiers it was asked about, and the registrable domain
  of a name is its last two labels.
\<close>

definition sample_TLDPlusOne :: "string \<Rightarrow> string option" where
  "sample_TLDPlusOne s =
     (let ls = strings_Split s (CHR ''.'') in
      if length ls < 2 then None else Some (strings_Join (drop (length ls - 2) ls) ''.''))"

definition sampleEnum :: Enumeration where
  "sampleEnum =
     \<lparr>Blacklisted = (\<lambda>n. False),
      IsDomainInScope = (\<lambda>n. True),
      WhichDomain = (\<lambda>n. ''example.com''),
      UUID = ''uuid'',
      MinForRecursive = 2,
      graph_String = ''graph'',
      graph_Upsert = (\<lambda>h c. None),
      graph_IsCNAMENode = (\<lambda>h c n. False),
      ctx_Done = (\<lambda>h c. False),
      EffectiveTLDPlusOne = sample_TLDPlusOne,
      filter_TestAndAdd = (\<lambda>h i. FilterTestAndAdd i \<in> set h),
      Cache_AddrSearch = (\<lambda>h a. None),
      IsReservedAddress = (\<lambda>a. (False, [])),
      IPv4RE_FindAllString = (\<lambda>s. []),
      AnySubdomainRegex_FindAllString = (\<lambda>s. []),
      Resolvers_QueryBlocking = (\<lambda>h c q. Inl ''timeout''),
      TrustedResolvers_QueryBlocking = (\<lambda>h c q. Inl ''timeout''),
      TrustedResolvers_WildcardDetected = (\<lambda>h c m d. False),
      InitialQueryTypes = [TypeCNAME, TypeA, TypeAAAA],
      requests_DNS = ''dns'',
      requests_RIR = ''rir'',
      unicode_ToLower = (\<lambda>s. s),
      unicode_TrimSpace = (\<lambda>s. s),
      net_ParseIP = (\<lambda>s. []),
      net_IP_String = (\<lambda>ip. ''<nil>''),
      net_ParseCIDR = (\<lambda>s. None),
      IsIPv6 = (\<lambda>ip. False)\<rparr>"

text \<open>Scenario S1 of the spec: a CNAME record followed by an A record.\<close>

definition reqS1 :: DNSRequest where
  "reqS1 =
     \<lparr>dns_Name = ''www.example.com'', dns_Domain = ''example.com'',
      dns_Records = [\<lparr>ans_Name = ''www.example.com'', ans_Type = 5, ans_Data = ''cdn.example.net.''\<rparr>,
                     \<lparr>ans_Name = ''www.example.com'', ans_Type = 1, ans_Data = ''1.2.3.4''\<rparr>],
      dns_Tag = ''dns'', dns_Source = ''DNS''\<rparr>"

text \<open>The same request with a CNAME record whose data is the root name.\<close>

definition reqRootCNAME :: DNSRequest where
  "reqRootCNAME =
     \<lparr>dns_Name = ''www.example.com'', dns_Domain = ''example.com'',
      dns_Records = [\<lparr>ans_Name = ''www.example.com'', ans_Type = 5, ans_Data = ''.''\<rparr>,
                     \<lparr>ans_Name = ''www.example.com'', ans_Type = 1, ans_Data = ''1.2.3.4''\<rparr>],
      dns_Tag = ''dns'', dns_Source = ''DNS''\<rparr>"

text \<open>The events that are writes to the graph.\<close>

fun isGraphWrite :: "event \<Rightarrow> bool" where
  "isGraphWrite (Graph c) = True"
| "isGraphWrite ev = False"

text \<open>A request whose record name is upper-case with a last dot.\<close>

definition reqUpper :: DNSRequest where
  "reqUpper =
     \<lparr>dns_Name = ''api.example.com'', dns_Domain = ''example.com'',
      dns_Records = [\<lparr>ans_Name = ''API.Example.COM.'', ans_Type = 1, ans_Data = ''1.2.3.4''\<rparr>],
      dns_Tag = ''dns'', dns_Source = ''DNS''\<rparr>"

text \<open>
  A request whose own name is upper-case with a last dot, and whose A record has a name
  and an address with white space around them and a dot before the last space.
\<close>

definition reqSpaces :: DNSRequest where
  "reqSpaces =
     \<lparr>dns_Name = ''WWW.Example.COM.'', dns_Domain = ''example.com'',
      dns_Records = [\<lparr>ans_Name = '' WWW.Example.COM. '', ans_Type = 1, ans_Data = ''1.2.3.4. ''\<rparr>],
      dns_Tag = ''dns'', dns_Source = ''DNS''\<rparr>"

text \<open>A string without an upper-case ASCII letter that neither begins nor ends with a dot.\<close>

definition noUpperNoOuterDot :: "string \<Rightarrow> bool" where
  "noUpperNoOuterDot s = (\<not> list_ex isUpper s \<and> (s = [] \<or> (hd s \<noteq> CHR ''.'' \<and> last s \<noteq> CHR ''.'')))"

text \<open>
  The call at position \<open>k\<close> of a history is a graph upsert that the graph answered with
  an error.
\<close>

definition failedUpsertAt :: "Enumeration \<Rightarrow> history \<Rightarrow> nat \<Rightarrow> bool" where
  "failedUpsertAt e hs k =
     (k < length hs \<and> (case hs ! k of Graph c \<Rightarrow> graph_Upsert e (take k hs) c \<noteq> None | _ \<Rightarrow> False))"

text \<open>The text of \<open>fmt.Errorf("%s<w>%v", dm.enum.graph, err)\<close> for the graph's error \<open>err\<close>.\<close>

definition wrapped :: "Enumeration \<Rightarrow> string \<Rightarrow> string \<Rightarrow> string" where
  "wrapped e w err = graph_String e @ w @ err"

text \<open>
  \<open>stops e h err h'\<close>: the history \<open>h'\<close> extends \<open>h\<close>, and a failed upsert among
  the new calls is the last call of \<open>h'\<close>, and \<open>err\<close> is the graph's error for it,
  wrapped.
\<close>

definition stops :: "Enumeration \<Rightarrow> history \<Rightarrow> string option \<Rightarrow> history \<Rightarrow> bool" where
  "stops e h err h' =
     ((\<exists>new. h' = h @ new) \<and>
      (\<forall>k. length h \<le> k \<and> failedUpsertAt e h' k \<longrightarrow>
           Suc k = length h' \<and>
           (\<exists>c ge w. h' ! k = Graph c \<and> graph_Upsert e (take k h') c = Some ge \<and>
                      err = Some (wrapped e w ge))))"

text \<open>The sample environment with a graph that refuses the A record of \<open>1.2.3.4\<close>.\<close>

definition envGraphFails :: Enumeration where
  "envGraphFails =
     sampleEnum\<lparr>graph_Upsert :=
       (\<lambda>h c. case c of UpsertA x n a s u \<Rightarrow> (if a = ''1.2.3.4'' then Some ''store is closed'' else None)
                       | _ \<Rightarrow> None)\<rparr>"

text \<open>A request with two A records.\<close>

definition reqTwoA :: DNSRequest where
  "reqTwoA =
     \<lparr>dns_Name = ''api.example.com'', dns_Domain = ''example.com'',
      dns_Records = [\<lparr>ans_Name = ''api.example.com'', ans_Type = 1, ans_Data = ''1.2.3.4''\<rparr>,
                     \<lparr>ans_Name = ''api.example.com'', ans_Type = 1, ans_Data = ''5.6.7.8''\<rparr>],
      dns_Tag = ''dns'', dns_Source = ''DNS''\<rparr>"

text \<open>A request with an empty name.\<close>

definition reqNoName :: DNSRequest where
  "reqNoName =
     \<lparr>dns_Name = [], dns_Domain = ''example.com'', dns_Records = [], dns_Tag = ''dns'', dns_Source = ''DNS''\<rparr>"

text \<open>
  The request of scenario S1 as the first loop leaves it, and the calls that \<open>Process\<close>
  makes for it before it asks the filter.
\<close>

definition reqS1_normalized :: DNSRequest where
  "reqS1_normalized =
     \<lparr>dns_Name = ''www.example.com'', dns_Domain = ''example.com'',
      dns_Records = [\<lparr>ans_Name = ''www.example.com'', ans_Type = 5, ans_Data = ''cdn.example.net''\<rparr>,
                     \<lparr>ans_Name = ''www.example.com'', ans_Type = 1, ans_Data = ''1.2.3.4''\<rparr>],
      dns_Tag = ''dns'', dns_Source = ''DNS''\<rparr>"

definition effectsS1 :: history where
  "effectsS1 =
     [CtxDone 7,
      PipelineData 7 (DNSData (Some
        \<lparr>dns_Name = ''cdn.example.net'', dns_Domain = ''example.net'', dns_Records = [],
         dns_Tag = ''dns'', dns_Source = ''DNS''\<rparr>)),
      Graph (UpsertCNAME 7 ''www.example.com'' ''cdn.example.net'' ''DNS'' ''uuid'')]"

text \<open>The sample environment with a filter that gives a false positive.\<close>

definition envFalsePositive :: Enumeration where
  "envFalsePositive = sampleEnum\<lparr>filter_TestAndAdd := (\<lambda>h i. True)\<rparr>"

text \<open>
  A TXT record with an SPF payload, an environment whose IPv4 expression finds the address
  in it, and the \<open>AddrRequest\<close> that \<open>findNamesAndAddresses\<close> builds for the match.
\<close>

definition envTXT :: Enumeration where
  "envTXT =
     sampleEnum\<lparr>IPv4RE_FindAllString :=
       (\<lambda>s. if s = ''v=spf1 ip4:192.0.2.1 -all'' then [''192.0.2.1''] else [])\<rparr>"

definition reqTXT :: DNSRequest where
  "reqTXT =
     \<lparr>dns_Name = ''example.com'', dns_Domain = ''example.com'',
      dns_Records = [\<lparr>ans_Name = ''example.com'', ans_Type = 16, ans_Data = ''v=spf1 ip4:192.0.2.1 -all''\<rparr>],
      dns_Tag = ''dns'', dns_Source = ''DNS''\<rparr>"

definition addrTXT :: AddrRequest where
  "addrTXT =
     \<lparr>addr_Address = ''192.0.2.1'', addr_InScope = False, addr_Domain = ''example.com'',
      addr_Tag = ''dns'', addr_Source = ''DNS''\<rparr>"




text \<open>
  The parent subdomain that \<open>checkForSubdomains\<close> derives from a request (\<open>sub\<close> in the
  source), and the two label-count checks that come before it.
\<close>

definition parentOf :: "Enumeration \<Rightarrow> DNSRequest \<Rightarrow> string" where
  "parentOf e req =
     strings_TrimSpace e (strings_Join (drop 1 (strings_Split (dns_Name req) (CHR ''.''))) ''.'')"

definition enoughLabels :: "DNSRequest \<Rightarrow> bool" where
  "enoughLabels req =
     (2 \<le> length (strings_Split (dns_Name req) (CHR ''.'')) \<and>
      int (length (strings_Split (dns_Domain req) (CHR ''.''))) \<le>
        int (length (strings_Split (dns_Name req) (CHR ''.''))) - 1)"

text \<open>
  Scenario S5 of the spec: requests for names under \<open>sub.example.com\<close>, the classifier
  before the first of them and after \<open>n\<close> of them, and what it sends. In the sample
  environment the resolvers fail, so the wildcard test asks the general pool once for
  each query type and says no.
\<close>

definition reqS5 :: "string \<Rightarrow> DNSRequest" where
  "reqS5 name =
     \<lparr>dns_Name = name, dns_Domain = ''example.com'',
      dns_Records = [\<lparr>ans_Name = name, ans_Type = 1, ans_Data = ''192.0.2.1''\<rparr>],
      dns_Tag = ''dns'', dns_Source = ''DNS''\<rparr>"

definition taskEmpty :: subdomainTask where
  "taskEmpty = \<lparr>cnames = {}, withinWildcards = {}, subdomains = Map.empty\<rparr>"

definition taskSeen :: "int \<Rightarrow> subdomainTask" where
  "taskSeen n = \<lparr>cnames = {}, withinWildcards = {}, subdomains = [''sub.example.com'' \<mapsto> n]\<rparr>"

definition probesS5 :: history where
  "probesS5 =
     [CtxDone 7,
      CtxDone 7, QueryBlocking General 7 (''a.sub.example.com'', 5),
      CtxDone 7, QueryBlocking General 7 (''a.sub.example.com'', 1),
      CtxDone 7, QueryBlocking General 7 (''a.sub.example.com'', 28)]"

definition subreqS5 :: "int \<Rightarrow> SubdomainRequest" where
  "subreqS5 n =
     \<lparr>sub_Name = ''sub.example.com'', sub_Domain = ''example.com'', sub_Tag = ''dns'',
      sub_Source = ''DNS'', sub_Times = n\<rparr>"

definition resolvedS5 :: "string \<Rightarrow> ResolvedRequest" where
  "resolvedS5 name =
     \<lparr>res_Name = name, res_Domain = ''example.com'',
      res_Records = [\<lparr>ans_Name = name, ans_Type = 1, ans_Data = ''192.0.2.1''\<rparr>],
      res_Tag = ''dns'', res_Source = ''DNS''\<rparr>"

text \<open>
  \<open>reach e r r'\<close>: the classifier can get from state \<open>r\<close> to state \<open>r'\<close> by any
  number of calls of \<open>Process\<close>, one after the other, with any context, datum and history.
\<close>

inductive reach :: "Enumeration \<Rightarrow> subdomainTask \<Rightarrow> subdomainTask \<Rightarrow> bool" for e where
  reach_refl: "reach e r r"
| reach_step: "reach e r r1 \<Longrightarrow> subdomainTask_Process e c d r1 h = (out, r2, h2) \<Longrightarrow> reach e r r2"

text \<open>
  \<open>suppressed e r sub\<close>: the wildcard set or the CNAME set has \<open>sub\<close>, and the times
  manager has counted it at least once.
\<close>

definition suppressed :: "Enumeration \<Rightarrow> subdomainTask \<Rightarrow> string \<Rightarrow> bool" where
  "suppressed e r sub =
     ((stringset_Has e (withinWildcards r) sub \<or> stringset_Has e (cnames r) sub) \<and>
      (\<exists>n. subdomains r sub = Some n \<and> 1 \<le> n))"

text \<open>
  Scenario S6 of the spec: both resolver pools answer every query, and the trusted pool's
  detector calls every answer a wildcard.
\<close>

definition envWild :: Enumeration where
  "envWild =
     sampleEnum\<lparr>Resolvers_QueryBlocking := (\<lambda>h c q. Inr \<lparr>Rcode = 0, Answer = [''203.0.113.9'']\<rparr>),
                  TrustedResolvers_QueryBlocking := (\<lambda>h c q. Inr \<lparr>Rcode = 0, Answer = [''203.0.113.9'']\<rparr>),
                  TrustedResolvers_WildcardDetected := (\<lambda>h c m d. True)\<rparr>"

definition reqS6 :: "string \<Rightarrow> DNSRequest" where
  "reqS6 name =
     \<lparr>dns_Name = name, dns_Domain = ''example.com'',
      dns_Records = [\<lparr>ans_Name = name, ans_Type = 1, ans_Data = ''203.0.113.9''\<rparr>],
      dns_Tag = ''dns'', dns_Source = ''DNS''\<rparr>"

text \<open>
  An environment in which the general pool answers every query and the trusted pool
  answers every query with the response code 2 (server failure).
\<close>

definition envTrustedFails :: Enumeration where
  "envTrustedFails =
     sampleEnum\<lparr>InitialQueryTypes := [TypeA],
                  Resolvers_QueryBlocking := (\<lambda>h c q. Inr \<lparr>Rcode = 0, Answer = [''answer of the general pool'']\<rparr>),
                  TrustedResolvers_QueryBlocking := (\<lambda>h c q. Inr \<lparr>Rcode = 2, Answer = []\<rparr>),
                  TrustedResolvers_WildcardDetected := (\<lambda>h c m d. True)\<rparr>"




section \<open>Properties of the data manager\<close>

declare checkCNAME.simps [simp del]
declare insertRecords.simps [simp del]

subsection \<open>The first loop\<close>

text \<open>
  When the record at index \<open>i\<close> is the first of type CNAME at or after \<open>k\<close>, the loop
  started at \<open>k\<close> stops there, and the record it leaves at \<open>i\<close> is the normalized one.
\<close>

lemma checkCNAME_first:
  "k \<le> i \<Longrightarrow> i < length recs \<Longrightarrow> uint16 (ans_Type (recs ! i)) = TypeCNAME \<Longrightarrow>
   (\<forall>j. k \<le> j \<and> j < i \<longrightarrow> uint16 (ans_Type (recs ! j)) \<noteq> TypeCNAME) \<Longrightarrow>
   snd (checkCNAME e recs k) = Some i \<and> fst (checkCNAME e recs k) ! i = normalizeRecord e (recs ! i)"
proof (induction e recs k rule: checkCNAME.induct)
  case (1 e recs k)
  have lt: "k < length recs" using "1.prems" by simp
  show ?case
  proof (cases "k = i")
    case True
    with "1.prems" show ?thesis
      by (simp add: checkCNAME.simps [of e recs i] Let_def)
  next
    case False
    then have ki: "k + 1 \<le> i" and nc: "uint16 (ans_Type (recs ! k)) \<noteq> TypeCNAME"
      using "1.prems" by auto
    have "snd (checkCNAME e (recs[k := normalizeRecord e (recs ! k)]) (k + 1)) = Some i \<and>
          fst (checkCNAME e (recs[k := normalizeRecord e (recs ! k)]) (k + 1)) ! i =
            normalizeRecord e (recs[k := normalizeRecord e (recs ! k)] ! i)"
      using "1.prems" ki False
      by (intro "1.IH" [OF lt refl refl nc]) auto
    with lt nc False show ?thesis
      by (simp add: checkCNAME.simps [of e recs k] Let_def)
  qed
qed

subsection \<open>C1: the CNAME short-circuit\<close>

text \<open>
  Claim C1, as amended. Let a request that is not blacklisted hold a record of type CNAME,
  the first one at index \<open>i\<close>, and let \<open>target\<close> be that record's data, lower-cased,
  dot-trimmed and without a last dot. When the target is not empty and has a non-empty
  effective TLD+1, \<open>dnsRequest\<close> makes exactly two calls: it re-injects one
  \<open>DNSRequest\<close> for the target at the seed source, then upserts the CNAME edge from the
  request's name to the target; the error returned is the graph's, wrapped, or nil. When
  the target is empty or has no effective TLD+1 it makes no call at all and returns an
  error. In both cases nothing is done for any other record.
\<close>

theorem cname_short_circuit:
  assumes nb: "\<not> Blacklisted e (dns_Name req)"
    and i: "i < length (dns_Records req)"
    and c: "uint16 (ans_Type (dns_Records req ! i)) = TypeCNAME"
    and first: "\<forall>j<i. uint16 (ans_Type (dns_Records req ! j)) \<noteq> TypeCNAME"
    and t: "target = RemoveLastDot (strings_Trim (strings_ToLower e (ans_Data (dns_Records req ! i))) ''.'')"
  shows "snd (snd (dnsRequest e ctx req h)) =
           (if target = [] then h
            else case EffectiveTLDPlusOne e target of
                   None \<Rightarrow> h
                 | Some domain \<Rightarrow>
                     if domain = [] then h
                     else h @ [PipelineData ctx (DNSData (Some
                                 \<lparr>dns_Name = target, dns_Domain = strings_ToLower e domain, dns_Records = [],
                                  dns_Tag = requests_DNS e, dns_Source = ''DNS''\<rparr>)),
                               Graph (UpsertCNAME ctx (dns_Name req) target (dns_Source req) (UUID e))])
       \<and> fst (snd (dnsRequest e ctx req h)) =
           (if target = [] then Some ''failed to extract a FQDN from the DNS answer data''
            else case EffectiveTLDPlusOne e target of
                   None \<Rightarrow> Some ''failed to extract a domain name from the FQDN''
                 | Some domain \<Rightarrow>
                     if domain = [] then Some ''failed to extract a domain name from the FQDN''
                     else (case graph_Upsert e
                                  (h @ [PipelineData ctx (DNSData (Some
                                     \<lparr>dns_Name = target, dns_Domain = strings_ToLower e domain, dns_Records = [],
                                      dns_Tag = requests_DNS e, dns_Source = ''DNS''\<rparr>))])
                                  (UpsertCNAME ctx (dns_Name req) target (dns_Source req) (UUID e)) of
                             Some err \<Rightarrow> Some (graph_String e @ '' failed to insert CNAME: '' @ err)
                           | None \<Rightarrow> None))"
proof -
  obtain recs where r: "checkCNAME e (dns_Records req) 0 = (recs, Some i)"
    and n: "recs ! i = normalizeRecord e (dns_Records req ! i)"
    using checkCNAME_first [of 0 i "dns_Records req" e] i c first
    by (cases "checkCNAME e (dns_Records req) 0") auto
  have d: "ans_Data (recs ! i) = strings_Trim (strings_ToLower e (ans_Data (dns_Records req ! i))) ''.''"
    by (simp add: n normalizeRecord_def)
  show ?thesis
    using nb by (simp add: dnsRequest_def r insertCNAME_def d t [symmetric] Let_def split: option.splits)
qed

text \<open>
  Scenario S1 of the spec: one re-injection for \<open>cdn.example.net\<close>, one CNAME upsert,
  nothing for the A record.
\<close>

theorem cname_short_circuit_witness:
  "snd (snd (dnsRequest sampleEnum 7 reqS1 [])) =
     [PipelineData 7 (DNSData (Some
        \<lparr>dns_Name = ''cdn.example.net'', dns_Domain = ''example.net'', dns_Records = [],
         dns_Tag = ''dns'', dns_Source = ''DNS''\<rparr>)),
      Graph (UpsertCNAME 7 ''www.example.com'' ''cdn.example.net'' ''DNS'' ''uuid'')]
   \<and> fst (snd (dnsRequest sampleEnum 7 reqS1 [])) = None"
  using cname_short_circuit [of sampleEnum reqS1 0 "''cdn.example.net''" 7 "[]"]
  by (simp add: sampleEnum_def reqS1_def uint16_def TypeCNAME_def RemoveLastDot_def strings_Trim_def
      strings_ToLower_def isASCII_def lowerASCII_def isUpper_def byte_def sample_TLDPlusOne_def)

text \<open>
  C1 as stated fails: a request that is not blacklisted and whose first record is a CNAME
  with the root name as data gets no graph write and no re-injection; \<open>dnsRequest\<close>
  returns an error.
\<close>

theorem cname_without_target_counterexample:
  "\<not> Blacklisted sampleEnum (dns_Name reqRootCNAME) \<and>
   uint16 (ans_Type (dns_Records reqRootCNAME ! 0)) = TypeCNAME \<and>
   filter isGraphWrite (snd (snd (dnsRequest sampleEnum 7 reqRootCNAME []))) = [] \<and>
   snd (snd (dnsRequest sampleEnum 7 reqRootCNAME [])) = [] \<and>
   fst (snd (dnsRequest sampleEnum 7 reqRootCNAME [])) =
     Some ''failed to extract a FQDN from the DNS answer data''"
  by (simp add: sampleEnum_def reqRootCNAME_def uint16_def TypeCNAME_def RemoveLastDot_def strings_Trim_def
      strings_ToLower_def isASCII_def lowerASCII_def isUpper_def byte_def dnsRequest_def
      checkCNAME.simps normalizeRecord_def insertCNAME_def)

subsection \<open>What the first loop leaves in the records\<close>

lemma checkCNAME_length: "length (fst (checkCNAME e recs k)) = length recs"
proof (induction e recs k rule: checkCNAME.induct)
  case (1 e recs i)
  show ?case
  proof (cases "i < length recs")
    case False
    then show ?thesis by (simp add: checkCNAME.simps [of e recs i])
  next
    case True
    show ?thesis
    proof (cases "uint16 (ans_Type (recs ! i)) = TypeCNAME")
      case c: True
      with True show ?thesis by (simp add: checkCNAME.simps [of e recs i] Let_def)
    next
      case c: False
      with True "1.IH" [OF True refl refl c] show ?thesis
        by (simp add: checkCNAME.simps [of e recs i] Let_def)
    qed
  qed
qed

lemma checkCNAME_index:
  "snd (checkCNAME e recs k) = Some i \<Longrightarrow>
     k \<le> i \<and> i < length recs \<and> uint16 (ans_Type (recs ! i)) = TypeCNAME"
proof (induction e recs k rule: checkCNAME.induct)
  case (1 e recs k)
  show ?case
  proof (cases "k < length recs")
    case False
    with "1.prems" show ?thesis by (simp add: checkCNAME.simps [of e recs k])
  next
    case True
    show ?thesis
    proof (cases "uint16 (ans_Type (recs ! k)) = TypeCNAME")
      case c: True
      with True "1.prems" show ?thesis by (auto simp add: checkCNAME.simps [of e recs k] Let_def)
    next
      case c: False
      have *: "checkCNAME e recs k = checkCNAME e (recs[k := normalizeRecord e (recs ! k)]) (k + 1)"
        using True c by (simp add: checkCNAME.simps [of e recs k] Let_def)
      from "1.IH" [OF True refl refl c] "1.prems" [unfolded *]
      show ?thesis by (auto simp add: nth_list_update split: if_splits)
    qed
  qed
qed

lemma checkCNAME_nth:
  "fst (checkCNAME e recs k) ! j =
     (if k \<le> j \<and> j < length recs \<and> (case snd (checkCNAME e recs k) of Some i \<Rightarrow> j \<le> i | None \<Rightarrow> True)
      then normalizeRecord e (recs ! j) else recs ! j)"
proof (induction e recs k rule: checkCNAME.induct)
  case (1 e recs k)
  show ?case
  proof (cases "k < length recs")
    case False
    then show ?thesis by (auto simp add: checkCNAME.simps [of e recs k])
  next
    case True
    show ?thesis
    proof (cases "uint16 (ans_Type (recs ! k)) = TypeCNAME")
      case c: True
      with True show ?thesis by (auto simp add: checkCNAME.simps [of e recs k] Let_def nth_list_update)
    next
      case c: False
      have *: "checkCNAME e recs k = checkCNAME e (recs[k := normalizeRecord e (recs ! k)]) (k + 1)"
        using True c by (simp add: checkCNAME.simps [of e recs k] Let_def)
      show ?thesis
        unfolding * "1.IH" [OF True refl refl c]
        using True checkCNAME_index [of e "recs[k := normalizeRecord e (recs ! k)]" "k + 1"]
        by (auto simp add: nth_list_update split: option.splits)
    qed
  qed
qed

lemma checkCNAME_none:
  "(\<forall>j. k \<le> j \<and> j < length recs \<longrightarrow> uint16 (ans_Type (recs ! j)) \<noteq> TypeCNAME) \<Longrightarrow>
     snd (checkCNAME e recs k) = None"
  using checkCNAME_index [of e recs k] by (cases "snd (checkCNAME e recs k)") auto

lemma checkCNAME_all:
  assumes "\<forall>j < length recs. uint16 (ans_Type (recs ! j)) \<noteq> TypeCNAME"
  shows "checkCNAME e recs 0 = (map (normalizeRecord e) recs, None)"
proof -
  have n: "snd (checkCNAME e recs 0) = None"
    using assms by (intro checkCNAME_none) simp
  have "fst (checkCNAME e recs 0) = map (normalizeRecord e) recs"
    by (rule nth_equalityI) (simp_all add: checkCNAME_length checkCNAME_nth n)
  with n show ?thesis by (simp add: prod_eq_iff)
qed

lemma checkCNAME_upto:
  assumes "i < length recs" "uint16 (ans_Type (recs ! i)) = TypeCNAME"
    "\<forall>j<i. uint16 (ans_Type (recs ! j)) \<noteq> TypeCNAME"
  shows "checkCNAME e recs 0 = (map (normalizeRecord e) (take (Suc i) recs) @ drop (Suc i) recs, Some i)"
proof -
  have n: "snd (checkCNAME e recs 0) = Some i"
    using checkCNAME_first [of 0 i recs e] assms by simp
  have "fst (checkCNAME e recs 0) = map (normalizeRecord e) (take (Suc i) recs) @ drop (Suc i) recs"
    using assms(1)
    by (intro nth_equalityI) (auto simp add: checkCNAME_length checkCNAME_nth n nth_append min_def)
  with n show ?thesis by (simp add: prod_eq_iff)
qed

subsection \<open>Lower-casing and trimming\<close>

lemma byte_char_of: "0 \<le> n \<Longrightarrow> n < 256 \<Longrightarrow> byte (char_of n) = n"
  by (simp add: byte_def of_char_of)

lemma lowerASCII_not_upper: "\<not> isUpper (lowerASCII c)"
proof (cases "isUpper c")
  case False
  then show ?thesis by (simp add: lowerASCII_def)
next
  case True
  then have b: "65 \<le> byte c" "byte c \<le> 90"
    by (simp_all add: isUpper_def byte_def)
  have "byte (lowerASCII c) = byte c + 32"
    using True b by (simp add: lowerASCII_def byte_char_of) (simp add: byte_def)
  with b show ?thesis by (simp add: isUpper_def) (simp add: byte_def)
qed

lemma map_lowerASCII_no_upper: "\<not> list_ex isUpper (map lowerASCII s)"
  by (induction s) (simp_all add: lowerASCII_not_upper)

lemma Trim_subset: "set (strings_Trim s cs) \<subseteq> set s"
proof
  fix x
  assume "x \<in> set (strings_Trim s cs)"
  then have "x \<in> set (dropWhile (\<lambda>c. c \<in> set cs) (rev (dropWhile (\<lambda>c. c \<in> set cs) s)))"
    by (simp add: strings_Trim_def)
  then have "x \<in> set (rev (dropWhile (\<lambda>c. c \<in> set cs) s))"
    by (rule set_dropWhileD)
  then have "x \<in> set (dropWhile (\<lambda>c. c \<in> set cs) s)"
    by simp
  then show "x \<in> set s"
    by (rule set_dropWhileD)
qed

lemma Trim_no_upper:
  assumes "\<not> list_ex isUpper s"
  shows "\<not> list_ex isUpper (strings_Trim s cs)"
proof
  assume "list_ex isUpper (strings_Trim s cs)"
  then obtain x where "x \<in> set (strings_Trim s cs)" "isUpper x"
    by (auto simp only: list_ex_iff)
  with Trim_subset [of s cs] have "x \<in> set s" "isUpper x" by blast+
  then have "list_ex isUpper s" by (auto simp only: list_ex_iff)
  with assms show False by simp
qed

lemma Trim_last:
  assumes ne: "strings_Trim s cs \<noteq> []"
  shows "last (strings_Trim s cs) \<notin> set cs"
proof -
  let ?P = "\<lambda>c. c \<in> set cs"
  let ?zs = "dropWhile ?P (rev (dropWhile ?P s))"
  have t: "strings_Trim s cs = rev ?zs" by (simp only: strings_Trim_def)
  from ne have z: "?zs \<noteq> []" unfolding t by (simp only: rev_is_Nil_conv not_False_eq_True)
  have "last (rev ?zs) = hd ?zs" using z by (simp only: last_rev)
  moreover have "\<not> ?P (hd ?zs)" using z by (rule hd_dropWhile)
  ultimately show ?thesis unfolding t by simp
qed

lemma Trim_hd:
  assumes ne: "strings_Trim s cs \<noteq> []"
  shows "hd (strings_Trim s cs) \<notin> set cs"
proof -
  let ?P = "\<lambda>c. c \<in> set cs"
  let ?ys = "dropWhile ?P s"
  let ?zs = "dropWhile ?P (rev ?ys)"
  have t: "strings_Trim s cs = rev ?zs" by (simp only: strings_Trim_def)
  from ne have z: "?zs \<noteq> []" unfolding t by (simp only: rev_is_Nil_conv not_False_eq_True)
  have "rev ?ys = takeWhile ?P (rev ?ys) @ ?zs" by (simp only: takeWhile_dropWhile_id)
  then have "rev (rev ?ys) = rev (takeWhile ?P (rev ?ys) @ ?zs)" by (simp only:)
  then have y: "?ys = rev ?zs @ rev (takeWhile ?P (rev ?ys))" by (simp only: rev_rev_ident rev_append)
  have rz: "rev ?zs \<noteq> []" using z by (simp only: rev_is_Nil_conv not_False_eq_True)
  have "hd ?ys = hd (rev ?zs @ rev (takeWhile ?P (rev ?ys)))" using y by (simp only:)
  also have "\<dots> = hd (rev ?zs)" using rz by (rule hd_append2)
  finally have h: "hd ?ys = hd (rev ?zs)" .
  have "?ys \<noteq> []"
  proof
    assume "?ys = []"
    then have "?zs = []" by (simp only: rev.simps dropWhile.simps)
    with z show False by simp
  qed
  then have "\<not> ?P (hd ?ys)" by (rule hd_dropWhile)
  then show ?thesis unfolding t h .
qed

lemma normalized_string:
  assumes "isASCII s"
  shows "noUpperNoOuterDot (strings_Trim (strings_ToLower e s) ''.'')"
proof -
  let ?t = "strings_Trim (strings_ToLower e s) ''.''"
  have l: "strings_ToLower e s = map lowerASCII s"
    using assms by (simp add: strings_ToLower_def)
  have 1: "\<not> list_ex isUpper ?t"
    unfolding l by (rule Trim_no_upper) (rule map_lowerASCII_no_upper)
  have 2: "?t \<noteq> [] \<Longrightarrow> hd ?t \<noteq> CHR ''.''"
    using Trim_hd [of "strings_ToLower e s" "''.''"] by simp
  have 3: "?t \<noteq> [] \<Longrightarrow> last ?t \<noteq> CHR ''.''"
    using Trim_last [of "strings_ToLower e s" "''.''"] by simp
  from 1 2 3 show ?thesis
    unfolding noUpperNoOuterDot_def by blast
qed

subsection \<open>C6: records are normalized before they are dispatched\<close>

text \<open>
  Claim C6, as amended. For a request that is not blacklisted, the records handed to the
  dispatch are the normalized ones: every record when none is of type CNAME (first
  conjunct), and the records up to and including the first CNAME when there is one, which
  is then the only record dispatched (second conjunct). Normalizing a record keeps its
  type and replaces its name and its data by the lower-cased text without its leading and
  trailing dots; for ASCII text the result has no upper-case letter and neither begins nor
  ends with a dot (third conjunct). White space is not trimmed, and the request's own name
  is not touched.
\<close>

theorem records_normalized_before_dispatch:
  assumes nb: "\<not> Blacklisted e (dns_Name req)"
  shows "((\<forall>j < length (dns_Records req). uint16 (ans_Type (dns_Records req ! j)) \<noteq> TypeCNAME) \<longrightarrow>
            dnsRequest e ctx req h =
              (req\<lparr>dns_Records := map (normalizeRecord e) (dns_Records req)\<rparr>,
               insertRecords e ctx (req\<lparr>dns_Records := map (normalizeRecord e) (dns_Records req)\<rparr>) 0 h))
       \<and> (\<forall>i. i < length (dns_Records req) \<and> uint16 (ans_Type (dns_Records req ! i)) = TypeCNAME \<and>
               (\<forall>j<i. uint16 (ans_Type (dns_Records req ! j)) \<noteq> TypeCNAME) \<longrightarrow>
            dnsRequest e ctx req h =
              (req\<lparr>dns_Records := map (normalizeRecord e) (take (Suc i) (dns_Records req)) @ drop (Suc i) (dns_Records req)\<rparr>,
               insertCNAME e ctx
                 (req\<lparr>dns_Records := map (normalizeRecord e) (take (Suc i) (dns_Records req)) @ drop (Suc i) (dns_Records req)\<rparr>) i h))
       \<and> (\<forall>r. ans_Type (normalizeRecord e r) = ans_Type r \<and>
               ans_Name (normalizeRecord e r) = strings_Trim (strings_ToLower e (ans_Name r)) ''.'' \<and>
               ans_Data (normalizeRecord e r) = strings_Trim (strings_ToLower e (ans_Data r)) ''.'' \<and>
               (isASCII (ans_Name r) \<longrightarrow> noUpperNoOuterDot (ans_Name (normalizeRecord e r))) \<and>
               (isASCII (ans_Data r) \<longrightarrow> noUpperNoOuterDot (ans_Data (normalizeRecord e r))))"
proof (intro conjI allI impI)
  assume "\<forall>j<length (dns_Records req). uint16 (ans_Type (dns_Records req ! j)) \<noteq> TypeCNAME"
  then show "dnsRequest e ctx req h =
      (req\<lparr>dns_Records := map (normalizeRecord e) (dns_Records req)\<rparr>,
       insertRecords e ctx (req\<lparr>dns_Records := map (normalizeRecord e) (dns_Records req)\<rparr>) 0 h)"
    using nb by (simp add: dnsRequest_def checkCNAME_all Let_def split: prod.splits)
next
  fix i
  assume "i < length (dns_Records req) \<and> uint16 (ans_Type (dns_Records req ! i)) = TypeCNAME \<and>
          (\<forall>j<i. uint16 (ans_Type (dns_Records req ! j)) \<noteq> TypeCNAME)"
  then have "checkCNAME e (dns_Records req) 0 =
      (map (normalizeRecord e) (take (Suc i) (dns_Records req)) @ drop (Suc i) (dns_Records req), Some i)"
    by (intro checkCNAME_upto) simp_all
  then show "dnsRequest e ctx req h =
      (req\<lparr>dns_Records := map (normalizeRecord e) (take (Suc i) (dns_Records req)) @ drop (Suc i) (dns_Records req)\<rparr>,
       insertCNAME e ctx
         (req\<lparr>dns_Records := map (normalizeRecord e) (take (Suc i) (dns_Records req)) @ drop (Suc i) (dns_Records req)\<rparr>) i h)"
    using nb by (simp add: dnsRequest_def Let_def split: prod.splits)
qed (simp_all add: normalizeRecord_def normalized_string)

text \<open>A record named \<open>API.Example.COM.\<close> is dispatched as \<open>api.example.com\<close>.\<close>

theorem records_normalized_before_dispatch_witness:
  "dnsRequest sampleEnum 7 reqUpper [] =
     (reqUpper\<lparr>dns_Records := [\<lparr>ans_Name = ''api.example.com'', ans_Type = 1, ans_Data = ''1.2.3.4''\<rparr>]\<rparr>,
      insertRecords sampleEnum 7
        (reqUpper\<lparr>dns_Records := [\<lparr>ans_Name = ''api.example.com'', ans_Type = 1, ans_Data = ''1.2.3.4''\<rparr>]\<rparr>) 0 [])
   \<and> noUpperNoOuterDot ''api.example.com''"
proof -
  have nb: "\<not> Blacklisted sampleEnum (dns_Name reqUpper)"
    by (simp add: sampleEnum_def)
  have n: "normalizeRecord sampleEnum \<lparr>ans_Name = ''API.Example.COM.'', ans_Type = 1, ans_Data = ''1.2.3.4''\<rparr> =
           \<lparr>ans_Name = ''api.example.com'', ans_Type = 1, ans_Data = ''1.2.3.4''\<rparr>"
    by code_simp
  have a: "isASCII ''API.Example.COM.''"
    by code_simp
  note T = records_normalized_before_dispatch [OF nb, of 7 "[]"]
  have 1: "dnsRequest sampleEnum 7 reqUpper [] =
     (reqUpper\<lparr>dns_Records := [\<lparr>ans_Name = ''api.example.com'', ans_Type = 1, ans_Data = ''1.2.3.4''\<rparr>]\<rparr>,
      insertRecords sampleEnum 7
        (reqUpper\<lparr>dns_Records := [\<lparr>ans_Name = ''api.example.com'', ans_Type = 1, ans_Data = ''1.2.3.4''\<rparr>]\<rparr>) 0 [])"
    using T [THEN conjunct1] n by (simp add: reqUpper_def uint16_def TypeCNAME_def)
  have "isASCII (ans_Name \<lparr>ans_Name = ''API.Example.COM.'', ans_Type = 1, ans_Data = ''1.2.3.4''\<rparr>) \<longrightarrow>
        noUpperNoOuterDot (ans_Name (normalizeRecord sampleEnum
          \<lparr>ans_Name = ''API.Example.COM.'', ans_Type = 1, ans_Data = ''1.2.3.4''\<rparr>))"
    using T [THEN conjunct2, THEN conjunct2] by blast
  then have 2: "noUpperNoOuterDot ''api.example.com''"
    using a by (simp add: n)
  from 1 2 show ?thesis ..
qed

text \<open>
  C6 as stated fails. The record's name keeps its white space and, before the last space,
  its dot; the A record's address is stored and forwarded with a last dot; and the
  request's own name is stored as it came, upper-case and with its last dot.
\<close>

theorem records_not_trimmed_counterexample:
  "dns_Records (fst (dnsRequest sampleEnum 7 reqSpaces [])) =
     [\<lparr>ans_Name = '' www.example.com. '', ans_Type = 1, ans_Data = ''1.2.3.4. ''\<rparr>] \<and>
   snd (snd (dnsRequest sampleEnum 7 reqSpaces [])) =
     [CtxDone 7, CheckForMissedWildcards ''1.2.3.4.'',
      PipelineData 7 (AddrData (Some
        \<lparr>addr_Address = ''1.2.3.4.'', addr_InScope = True, addr_Domain = ''example.com'',
         addr_Tag = ''dns'', addr_Source = ''DNS''\<rparr>)),
      Graph (UpsertA 7 ''WWW.Example.COM.'' ''1.2.3.4.'' ''DNS'' ''uuid'')]"
  by code_simp

subsection \<open>A failed upsert ends the handling of a request\<close>

lemma failedUpsertAt_prefix:
  "k < length h \<Longrightarrow> failedUpsertAt e (h @ new) k = failedUpsertAt e h k"
  by (auto simp add: failedUpsertAt_def nth_append split: event.splits)

lemma failedUpsertAt_new:
  "failedUpsertAt e (h @ new) (length h + n) =
     (n < length new \<and> (case new ! n of Graph c \<Rightarrow> graph_Upsert e (h @ take n new) c \<noteq> None | _ \<Rightarrow> False))"
  by (auto simp add: failedUpsertAt_def nth_append split: event.splits)

lemma stops_refl: "stops e h err h"
  by (auto simp add: stops_def failedUpsertAt_def)

lemma stops_trans:
  assumes a: "stops e h None h1" and b: "stops e h1 err h2"
  shows "stops e h err h2"
proof -
  from a obtain n1 where h1: "h1 = h @ n1" by (auto simp add: stops_def)
  from b obtain n2 where h2: "h2 = h1 @ n2" by (auto simp add: stops_def)
  have "Suc k = length h2 \<and>
        (\<exists>c ge w. h2 ! k = Graph c \<and> graph_Upsert e (take k h2) c = Some ge \<and> err = Some (wrapped e w ge))"
    if k: "length h \<le> k" "failedUpsertAt e h2 k" for k
  proof (cases "k < length h1")
    case True
    have "failedUpsertAt e h1 k"
      using failedUpsertAt_prefix [OF True, of e n2] h2 k(2) by simp
    with a k(1) show ?thesis unfolding stops_def by blast
  next
    case False
    then have "length h1 \<le> k" by simp
    with b k(2) show ?thesis unfolding stops_def by blast
  qed
  moreover have "h2 = h @ (n1 @ n2)" using h1 h2 by simp
  ultimately show ?thesis unfolding stops_def by blast
qed

lemma stops_events:
  assumes "list_all (\<lambda>ev. \<not> isGraphWrite ev) new"
  shows "stops e h None (h @ new)"
proof -
  have "\<not> failedUpsertAt e (h @ new) k" if "length h \<le> k" for k
  proof -
    from that obtain n where k: "k = length h + n" using le_Suc_ex by blast
    show ?thesis
    proof (cases "n < length new")
      case True
      with assms have "\<not> isGraphWrite (new ! n)" by (simp add: list_all_length)
      then show ?thesis unfolding k failedUpsertAt_new by (cases "new ! n") simp_all
    next
      case False
      then show ?thesis unfolding k failedUpsertAt_new by simp
    qed
  qed
  then show ?thesis unfolding stops_def by blast
qed

lemma stops_upsert:
  "stops e h (case graph_Upsert e h c of Some err \<Rightarrow> Some (wrapped e w err) | None \<Rightarrow> None)
     (h @ [Graph c])"
proof -
  have "Suc k = length (h @ [Graph c]) \<and>
        (\<exists>c' ge w'. (h @ [Graph c]) ! k = Graph c' \<and> graph_Upsert e (take k (h @ [Graph c])) c' = Some ge \<and>
           (case graph_Upsert e h c of Some err \<Rightarrow> Some (wrapped e w err) | None \<Rightarrow> None) =
             Some (wrapped e w' ge))"
    if "length h \<le> k" "failedUpsertAt e (h @ [Graph c]) k" for k
  proof -
    from that(1) obtain n where k: "k = length h + n" using le_Suc_ex by blast
    from that(2) have n: "n = 0" and g: "graph_Upsert e h c \<noteq> None"
      unfolding k failedUpsertAt_new by auto
    from g obtain ge where ge: "graph_Upsert e h c = Some ge" by auto
    show ?thesis unfolding k n using ge by auto
  qed
  then show ?thesis unfolding stops_def by blast
qed

lemma stops_events_upsert:
  assumes "list_all (\<lambda>ev. \<not> isGraphWrite ev) new"
  shows "stops e h (case graph_Upsert e (h @ new) c of Some err \<Rightarrow> Some (wrapped e w err) | None \<Rightarrow> None)
           (h @ new @ [Graph c])"
  using stops_trans [OF stops_events [OF assms, of e h] stops_upsert [where e = e and h = "h @ new" and c = c and w = w]]
  by simp

lemma stops_upsert_None:
  assumes "list_all (\<lambda>ev. \<not> isGraphWrite ev) new" and "graph_Upsert e (h @ new) c = None"
  shows "stops e h None (h @ new @ [Graph c])"
  using stops_events_upsert [OF assms(1), where e = e and h = h and c = c and w = "[]"] assms(2) by simp

lemma stops_upsert_Some:
  assumes "list_all (\<lambda>ev. \<not> isGraphWrite ev) new" and "graph_Upsert e (h @ new) c = Some ge"
  shows "stops e h (Some (wrapped e w ge)) (h @ new @ [Graph c])"
  using stops_events_upsert [OF assms(1), where e = e and h = h and c = c and w = w] assms(2) by simp

lemmas stops_upsert_intros =
  stops_upsert_None [where new = "[]", simplified]
  stops_upsert_Some [where new = "[]", simplified]
  stops_upsert_None [where new = "[ev]" for ev, simplified]
  stops_upsert_Some [where new = "[ev]" for ev, simplified]
  stops_upsert_None [where new = "[ev1, ev2]" for ev1 ev2, simplified]
  stops_upsert_Some [where new = "[ev1, ev2]" for ev1 ev2, simplified]

lemma stops_insertCNAME: "insertCNAME e ctx req i h = (err, h') \<Longrightarrow> stops e h err h'"
  unfolding insertCNAME_def wrapped_def [symmetric]
  by (auto simp add: Let_def stops_refl split: if_splits option.splits
      intro!: stops_upsert_intros)

lemma stops_insertA: "insertA e ctx req i h = (err, h') \<Longrightarrow> stops e h err h'"
  unfolding insertA_def wrapped_def [symmetric]
  by (auto simp add: Let_def stops_refl split: if_splits option.splits
      intro!: stops_upsert_intros)

lemma stops_insertAAAA: "insertAAAA e ctx req i h = (err, h') \<Longrightarrow> stops e h err h'"
  unfolding insertAAAA_def wrapped_def [symmetric]
  by (auto simp add: Let_def stops_refl split: if_splits option.splits
      intro!: stops_upsert_intros)

lemma stops_insertPTR: "insertPTR e ctx req i h = (err, h') \<Longrightarrow> stops e h err h'"
  unfolding insertPTR_def wrapped_def [symmetric]
  by (auto simp add: Let_def stops_refl split: if_splits option.splits
      intro!: stops_upsert_intros)

lemma stops_insertSRV: "insertSRV e ctx req i h = (err, h') \<Longrightarrow> stops e h err h'"
  unfolding insertSRV_def wrapped_def [symmetric]
  by (auto simp add: Let_def stops_refl split: if_splits option.splits
      intro!: stops_upsert_intros)

lemma stops_insertNS: "insertNS e ctx req i h = (err, h') \<Longrightarrow> stops e h err h'"
  unfolding insertNS_def wrapped_def [symmetric]
  by (auto simp add: Let_def stops_refl split: if_splits option.splits
      intro!: stops_upsert_intros)

lemma stops_insertMX: "insertMX e ctx req i h = (err, h') \<Longrightarrow> stops e h err h'"
  unfolding insertMX_def wrapped_def [symmetric]
  by (auto simp add: Let_def stops_refl split: if_splits option.splits
      intro!: stops_upsert_intros)

lemma stops_findNamesAndAddresses: "stops e h None (findNamesAndAddresses e ctx d domain h)"
  unfolding findNamesAndAddresses_def
  by (rule stops_events) (auto simp add: list_all_iff)

lemma stops_insertTXT: "insertTXT e ctx req i h = (err, h') \<Longrightarrow> stops e h err h'"
  by (auto simp add: insertTXT_def stops_refl stops_findNamesAndAddresses split: if_splits)

lemma stops_insertSOA: "insertSOA e ctx req i h = (err, h') \<Longrightarrow> stops e h err h'"
  by (auto simp add: insertSOA_def stops_refl stops_findNamesAndAddresses split: if_splits)

lemma stops_insertSPF: "insertSPF e ctx req i h = (err, h') \<Longrightarrow> stops e h err h'"
  by (auto simp add: insertSPF_def stops_refl stops_findNamesAndAddresses split: if_splits)

lemma stops_switchType: "switchType e ctx req i h = (err, h') \<Longrightarrow> stops e h err h'"
  unfolding switchType_def Let_def
  by (auto split: if_splits
      intro: stops_insertA stops_insertAAAA stops_insertPTR stops_insertSRV stops_insertNS
        stops_insertMX stops_insertTXT stops_insertSOA stops_insertSPF stops_refl)

lemma stops_CtxDone: "stops e h None (h @ [CtxDone ctx])"
  by (rule stops_events) simp

lemma stops_insertRecords: "insertRecords e ctx req i h = (err, h') \<Longrightarrow> stops e h err h'"
proof (induction e ctx req i h arbitrary: err h' rule: insertRecords.induct)
  case (1 e ctx req i h)
  show ?case
  proof (cases "i < length (dns_Records req)")
    case False
    with "1.prems" show ?thesis by (simp add: insertRecords.simps [of e ctx req i h] stops_refl)
  next
    case lt: True
    show ?thesis
    proof (cases "ctx_Done e h ctx")
      case True
      with lt "1.prems" show ?thesis
        by (auto simp add: insertRecords.simps [of e ctx req i h] stops_CtxDone)
    next
      case nd: False
      obtain err1 h1 where s: "switchType e ctx req i (h @ [CtxDone ctx]) = (err1, h1)"
        by (cases "switchType e ctx req i (h @ [CtxDone ctx])")
      have s1: "stops e (h @ [CtxDone ctx]) err1 h1" using s by (rule stops_switchType)
      show ?thesis
      proof (cases err1)
        case (Some m)
        with lt nd s "1.prems" have "err = err1" "h' = h1"
          by (simp_all add: insertRecords.simps [of e ctx req i h])
        with s1 stops_CtxDone [of e h ctx] show ?thesis by (auto intro: stops_trans)
      next
        case None
        with lt nd s "1.prems" have r: "insertRecords e ctx req (i + 1) h1 = (err, h')"
          by (simp add: insertRecords.simps [of e ctx req i h])
        have "stops e h1 err h'"
          using "1.IH" [OF lt nd s [symmetric] _ r] None by simp
        moreover have "stops e h None h1"
          using s1 None stops_CtxDone [of e h ctx] by (auto intro: stops_trans)
        ultimately show ?thesis by (rule stops_trans [rotated])
      qed
    qed
  qed
qed

lemma stops_dnsRequest: "dnsRequest e ctx req h = (req', err, h') \<Longrightarrow> stops e h err h'"
  by (auto simp add: dnsRequest_def Let_def stops_refl split: if_splits prod.splits option.splits
      intro: stops_insertCNAME stops_insertRecords)


subsection \<open>C9: a graph error stops the request, is logged, and leaves the dedup decision\<close>

text \<open>
  Claim C9. Let \<open>Process\<close> receive a \<open>DNSRequest\<close> with a context that is not done,
  and let some graph upsert made by \<open>dnsRequest\<close> for it return an error. Then that
  upsert is the last call \<open>dnsRequest\<close> makes, so no later record is processed;
  \<open>dnsRequest\<close> returns the graph's error, wrapped, which \<open>Process\<close> passes to the
  logger; the error that \<open>Process\<close> itself returns is nil; and the datum returned is
  decided by the filter alone: nil when the name is not empty and the filter reports it,
  the request otherwise.
\<close>

theorem graph_error_stops_request:
  assumes nd: "\<not> ctx_Done e h ctx"
    and run: "dnsRequest e ctx req (h @ [CtxDone ctx]) = (req', err, h1)"
    and k: "length h < k"
    and f: "failedUpsertAt e h1 k"
  shows "Suc k = length h1 \<and>
         (\<exists>c ge w m.
              h1 ! k = Graph c \<and> graph_Upsert e (take k h1) c = Some ge \<and>
              m = graph_String e @ w @ ge \<and> err = Some m \<and>
              dataManager_Process e ctx (DNSData (Some req)) dm h =
                ((if dns_Name req \<noteq> [] \<and> filter_TestAndAdd e (h1 @ [LogPrint m]) (dns_Name req)
                  then None else Some (DNSData (Some req')), None),
                 dm,
                 h1 @ [LogPrint m] @ (if dns_Name req \<noteq> [] then [FilterTestAndAdd (dns_Name req)] else [])))"
proof -
  have s: "stops e (h @ [CtxDone ctx]) err h1"
    using run by (rule stops_dnsRequest)
  have "length (h @ [CtxDone ctx]) \<le> k" using k by simp
  with s f have l: "Suc k = length h1"
    and "\<exists>c ge w. h1 ! k = Graph c \<and> graph_Upsert e (take k h1) c = Some ge \<and> err = Some (wrapped e w ge)"
    unfolding stops_def by blast+
  then obtain c ge w where g: "h1 ! k = Graph c" "graph_Upsert e (take k h1) c = Some ge"
    and m: "err = Some (graph_String e @ w @ ge)"
    unfolding wrapped_def by blast
  have "dataManager_Process e ctx (DNSData (Some req)) dm h =
          ((if dns_Name req \<noteq> [] \<and>
               filter_TestAndAdd e (h1 @ [LogPrint (graph_String e @ w @ ge)]) (dns_Name req)
            then None else Some (DNSData (Some req')), None),
           dm,
           h1 @ [LogPrint (graph_String e @ w @ ge)] @
             (if dns_Name req \<noteq> [] then [FilterTestAndAdd (dns_Name req)] else []))"
    using nd by (simp add: dataManager_Process_def run m logError_def filterStep_def)
  with l g m show ?thesis by blast
qed

text \<open>
  The graph refuses the first of two A records: the second is not processed, the error
  is logged, and the request, seen for the first time, is forwarded.
\<close>

theorem graph_error_stops_request_witness:
  "Suc 4 = length [CtxDone 7, CtxDone 7, CheckForMissedWildcards ''1.2.3.4'',
                   PipelineData 7 (AddrData (Some
                     \<lparr>addr_Address = ''1.2.3.4'', addr_InScope = True, addr_Domain = ''example.com'',
                      addr_Tag = ''dns'', addr_Source = ''DNS''\<rparr>)),
                   Graph (UpsertA 7 ''api.example.com'' ''1.2.3.4'' ''DNS'' ''uuid'')] \<and>
   dataManager_Process envGraphFails 7 (DNSData (Some reqTwoA)) \<lparr>queue = []\<rparr> [] =
     ((Some (DNSData (Some reqTwoA)), None), \<lparr>queue = []\<rparr>,
      [CtxDone 7, CtxDone 7, CheckForMissedWildcards ''1.2.3.4'',
       PipelineData 7 (AddrData (Some
         \<lparr>addr_Address = ''1.2.3.4'', addr_InScope = True, addr_Domain = ''example.com'',
          addr_Tag = ''dns'', addr_Source = ''DNS''\<rparr>)),
       Graph (UpsertA 7 ''api.example.com'' ''1.2.3.4'' ''DNS'' ''uuid''),
       LogPrint ''graph failed to insert A record: store is closed'',
       FilterTestAndAdd ''api.example.com''])"
proof -
  let ?h1 = "[CtxDone 7, CtxDone 7, CheckForMissedWildcards ''1.2.3.4'',
              PipelineData 7 (AddrData (Some
                \<lparr>addr_Address = ''1.2.3.4'', addr_InScope = True, addr_Domain = ''example.com'',
                 addr_Tag = ''dns'', addr_Source = ''DNS''\<rparr>)),
              Graph (UpsertA 7 ''api.example.com'' ''1.2.3.4'' ''DNS'' ''uuid'')]"
  have nd: "\<not> ctx_Done envGraphFails [] 7"
    by code_simp
  have run: "dnsRequest envGraphFails 7 reqTwoA ([] @ [CtxDone 7]) =
               (reqTwoA, Some ''graph failed to insert A record: store is closed'', ?h1)"
    by code_simp
  have k: "length ([] :: history) < 4" by simp
  have f: "failedUpsertAt envGraphFails ?h1 4"
    by code_simp
  have n: "dns_Name reqTwoA = ''api.example.com''" by (simp add: reqTwoA_def)
  have t: "\<not> filter_TestAndAdd envGraphFails
              (?h1 @ [LogPrint ''graph failed to insert A record: store is closed'']) ''api.example.com''"
    by code_simp
  from graph_error_stops_request [OF nd run k f, of "\<lparr>queue = []\<rparr>"]
  obtain m where "Some ''graph failed to insert A record: store is closed'' = Some m"
    and "dataManager_Process envGraphFails 7 (DNSData (Some reqTwoA)) \<lparr>queue = []\<rparr> [] =
           ((if dns_Name reqTwoA \<noteq> [] \<and> filter_TestAndAdd envGraphFails (?h1 @ [LogPrint m]) (dns_Name reqTwoA)
             then None else Some (DNSData (Some reqTwoA)), None),
            \<lparr>queue = []\<rparr>,
            ?h1 @ [LogPrint m] @ (if dns_Name reqTwoA \<noteq> [] then [FilterTestAndAdd (dns_Name reqTwoA)] else []))"
    by blast
  with n t show ?thesis by simp
qed

subsection \<open>The side effects never ask the filter\<close>

lemma filter_free_switchType:
  "switchType e ctx req i h = (err, h') \<Longrightarrow> (FilterTestAndAdd x \<in> set h') = (FilterTestAndAdd x \<in> set h)"
  unfolding switchType_def Let_def insertA_def insertAAAA_def insertPTR_def insertSRV_def insertNS_def
    insertMX_def insertTXT_def insertSOA_def insertSPF_def findNamesAndAddresses_def
  by (auto split: if_splits option.splits)

lemma filter_free_insertRecords:
  "insertRecords e ctx req i h = (err, h') \<Longrightarrow> (FilterTestAndAdd x \<in> set h') = (FilterTestAndAdd x \<in> set h)"
proof (induction e ctx req i h arbitrary: err h' rule: insertRecords.induct)
  case (1 e ctx req i h)
  show ?case
  proof (cases "i < length (dns_Records req) \<and> \<not> ctx_Done e h ctx")
    case False
    with "1.prems" show ?thesis
      by (auto simp add: insertRecords.simps [of e ctx req i h] split: if_splits)
  next
    case True
    obtain err1 h1 where s: "switchType e ctx req i (h @ [CtxDone ctx]) = (err1, h1)"
      by (cases "switchType e ctx req i (h @ [CtxDone ctx])")
    have a: "(FilterTestAndAdd x \<in> set h1) = (FilterTestAndAdd x \<in> set h)"
      using filter_free_switchType [OF s, of x] by simp
    show ?thesis
    proof (cases err1)
      case (Some m)
      with True s "1.prems" have "h' = h1"
        by (simp add: insertRecords.simps [of e ctx req i h])
      with a show ?thesis by simp
    next
      case None
      with True s "1.prems" have r: "insertRecords e ctx req (i + 1) h1 = (err, h')"
        by (simp add: insertRecords.simps [of e ctx req i h])
      have "(FilterTestAndAdd x \<in> set h') = (FilterTestAndAdd x \<in> set h1)"
        using "1.IH" [OF _ _ s [symmetric] _ r] True None by simp
      with a show ?thesis by simp
    qed
  qed
qed

lemma filter_free_dnsRequest:
  "dnsRequest e ctx req h = (req', err, h') \<Longrightarrow> (FilterTestAndAdd x \<in> set h') = (FilterTestAndAdd x \<in> set h)"
  by (auto simp add: dnsRequest_def Let_def insertCNAME_def
      split: if_splits prod.splits option.splits dest: filter_free_insertRecords)

lemma filter_free_addrRequest:
  "addrRequest e ctx req dm h = (err, dm', h') \<Longrightarrow> (FilterTestAndAdd x \<in> set h') = (FilterTestAndAdd x \<in> set h)"
  by (auto simp add: addrRequest_def Let_def split: if_splits prod.splits option.splits bool.splits)

lemma filter_free_logError:
  "(FilterTestAndAdd x \<in> set (logError err h)) = (FilterTestAndAdd x \<in> set h)"
  by (simp add: logError_def split: option.splits)

subsection \<open>C2: the side effects come first, the filter decides what is forwarded\<close>

text \<open>
  Claim C2, as amended. Let the context not be done when \<open>Process\<close> is entered, and let
  the filter report exactly the identifiers it was asked about before. For a
  \<open>DNSRequest\<close> (identifier: its name) and for an \<open>AddrRequest\<close> (identifier: its
  address), \<open>Process\<close> first makes the calls of the record handling or address handling
  and logs its error, on every arrival, and only then asks the filter, and only for an
  identifier that is not empty. It returns nil exactly when the identifier is not empty
  and the filter was asked about it before; otherwise it forwards the request, a
  \<open>DNSRequest\<close> with its records as the first loop has rewritten them. The question to
  the filter is the last call of the history returned, so a later arrival of the same
  identifier finds it there. The error returned is nil.
\<close>

theorem dedup_after_side_effects:
  assumes exact: "\<forall>h i. filter_TestAndAdd e h i = (FilterTestAndAdd i \<in> set h)"
    and nd: "\<not> ctx_Done e h ctx"
  shows "(\<forall>v v' err h1.
            dnsRequest e ctx v (h @ [CtxDone ctx]) = (v', err, h1) \<longrightarrow>
            dataManager_Process e ctx (DNSData (Some v)) dm h =
              ((if dns_Name v \<noteq> [] \<and> FilterTestAndAdd (dns_Name v) \<in> set h then None
                else Some (DNSData (Some v')), None),
               dm,
               logError err h1 @ (if dns_Name v \<noteq> [] then [FilterTestAndAdd (dns_Name v)] else [])))
       \<and> (\<forall>v err dm' h1.
            addrRequest e ctx (Some v) dm (h @ [CtxDone ctx]) = (err, dm', h1) \<longrightarrow>
            dataManager_Process e ctx (AddrData (Some v)) dm h =
              ((if addr_Address v \<noteq> [] \<and> FilterTestAndAdd (addr_Address v) \<in> set h then None
                else Some (AddrData (Some v)), None),
               dm',
               logError err h1 @ (if addr_Address v \<noteq> [] then [FilterTestAndAdd (addr_Address v)] else [])))"
proof (intro conjI allI impI)
  fix v v' err h1
  assume run: "dnsRequest e ctx v (h @ [CtxDone ctx]) = (v', err, h1)"
  have "(FilterTestAndAdd (dns_Name v) \<in> set (logError err h1)) = (FilterTestAndAdd (dns_Name v) \<in> set h)"
    using filter_free_dnsRequest [OF run, of "dns_Name v"] by (simp add: filter_free_logError)
  then show "dataManager_Process e ctx (DNSData (Some v)) dm h =
      ((if dns_Name v \<noteq> [] \<and> FilterTestAndAdd (dns_Name v) \<in> set h then None
        else Some (DNSData (Some v')), None),
       dm,
       logError err h1 @ (if dns_Name v \<noteq> [] then [FilterTestAndAdd (dns_Name v)] else []))"
    using nd exact by (simp add: dataManager_Process_def run filterStep_def)
next
  fix v err dm' h1
  assume run: "addrRequest e ctx (Some v) dm (h @ [CtxDone ctx]) = (err, dm', h1)"
  have "(FilterTestAndAdd (addr_Address v) \<in> set (logError err h1)) = (FilterTestAndAdd (addr_Address v) \<in> set h)"
    using filter_free_addrRequest [OF run, of "addr_Address v"] by (simp add: filter_free_logError)
  then show "dataManager_Process e ctx (AddrData (Some v)) dm h =
      ((if addr_Address v \<noteq> [] \<and> FilterTestAndAdd (addr_Address v) \<in> set h then None
        else Some (AddrData (Some v)), None),
       dm',
       logError err h1 @ (if addr_Address v \<noteq> [] then [FilterTestAndAdd (addr_Address v)] else []))"
    using nd exact by (simp add: dataManager_Process_def run filterStep_def)
qed

text \<open>
  Two arrivals of the request of scenario S1: the first is forwarded, with its CNAME
  record normalized; the second makes the same calls and returns nil.
\<close>

theorem dedup_after_side_effects_witness:
  "dataManager_Process sampleEnum 7 (DNSData (Some reqS1)) \<lparr>queue = []\<rparr> [] =
     ((Some (DNSData (Some reqS1_normalized)), None), \<lparr>queue = []\<rparr>,
      effectsS1 @ [FilterTestAndAdd ''www.example.com'']) \<and>
   dataManager_Process sampleEnum 7 (DNSData (Some reqS1)) \<lparr>queue = []\<rparr>
       (effectsS1 @ [FilterTestAndAdd ''www.example.com'']) =
     ((None, None), \<lparr>queue = []\<rparr>,
      (effectsS1 @ [FilterTestAndAdd ''www.example.com'']) @ effectsS1 @ [FilterTestAndAdd ''www.example.com''])"
proof -
  let ?H = "effectsS1 @ [FilterTestAndAdd ''www.example.com'']"
  have exact: "\<forall>h i. filter_TestAndAdd sampleEnum h i = (FilterTestAndAdd i \<in> set h)"
    by (simp add: sampleEnum_def)
  have nd: "\<not> ctx_Done sampleEnum h 7" for h
    by (simp add: sampleEnum_def)
  have run1: "dnsRequest sampleEnum 7 reqS1 ([] @ [CtxDone 7]) = (reqS1_normalized, None, effectsS1)"
    by code_simp
  have run2: "dnsRequest sampleEnum 7 reqS1 (?H @ [CtxDone 7]) = (reqS1_normalized, None, ?H @ effectsS1)"
    by code_simp
  have n: "dns_Name reqS1 = ''www.example.com''" by (simp add: reqS1_def)
  have m1: "FilterTestAndAdd ''www.example.com'' \<notin> set ([] :: history)" by simp
  have m2: "FilterTestAndAdd ''www.example.com'' \<in> set ?H" by simp
  have 1: "dataManager_Process sampleEnum 7 (DNSData (Some reqS1)) \<lparr>queue = []\<rparr> [] =
     ((Some (DNSData (Some reqS1_normalized)), None), \<lparr>queue = []\<rparr>, ?H)"
    using dedup_after_side_effects [OF exact nd, of "[]" "\<lparr>queue = []\<rparr>", THEN conjunct1,
        THEN spec, THEN spec, THEN spec, THEN spec, THEN mp, OF run1] n
    by (simp add: logError_def)
  have 2: "dataManager_Process sampleEnum 7 (DNSData (Some reqS1)) \<lparr>queue = []\<rparr> ?H =
     ((None, None), \<lparr>queue = []\<rparr>, ?H @ effectsS1 @ [FilterTestAndAdd ''www.example.com''])"
    using dedup_after_side_effects [OF exact nd, of ?H "\<lparr>queue = []\<rparr>", THEN conjunct1,
        THEN spec, THEN spec, THEN spec, THEN spec, THEN mp, OF run2] n m2
    by (simp add: logError_def)
  from 1 2 show ?thesis by (rule conjI)
qed

text \<open>
  C2 as stated fails in three ways: the request forwarded on the first arrival is not the
  request as it came (its records are rewritten); the second arrival of a request with an
  empty name is forwarded; and a filter that gives a false positive swallows a first
  arrival.
\<close>

theorem dedup_counterexample:
  "fst (fst (dataManager_Process sampleEnum 7 (DNSData (Some reqS1)) \<lparr>queue = []\<rparr> [])) \<noteq>
     Some (DNSData (Some reqS1)) \<and>
   fst (fst (dataManager_Process sampleEnum 7 (DNSData (Some reqNoName)) \<lparr>queue = []\<rparr>
              (snd (snd (dataManager_Process sampleEnum 7 (DNSData (Some reqNoName)) \<lparr>queue = []\<rparr> []))))) =
     Some (DNSData (Some reqNoName)) \<and>
   fst (fst (dataManager_Process envFalsePositive 7 (DNSData (Some reqS1)) \<lparr>queue = []\<rparr> [])) = None"
  by code_simp

subsection \<open>C10: addresses found in TXT, SOA and SPF payloads are out of scope\<close>

lemma findNamesAndAddresses_addr:
  assumes "PipelineData c (AddrData (Some a)) \<in> set (findNamesAndAddresses e ctx d domain h)"
    and "PipelineData c (AddrData (Some a)) \<notin> set h"
  shows "\<not> addr_InScope a"
  using assms by (auto simp add: findNamesAndAddresses_def)

text \<open>
  Claim C10. An \<open>AddrRequest\<close> that \<open>insertTXT\<close>, \<open>insertSOA\<close> or \<open>insertSPF\<close>
  re-injects has \<open>InScope\<close> false. Whenever such a request reaches the data manager,
  with any context, any state and after any history, \<open>addrRequest\<close> polls the context
  and returns: it makes no upsert and leaves the queue as it is. \<open>Process\<close> then only
  asks the filter.
\<close>

theorem payload_addresses_out_of_scope:
  assumes ev: "PipelineData c (AddrData (Some a)) \<in>
                 set (snd (insertTXT e ctx req i h)) \<union> set (snd (insertSOA e ctx req i h)) \<union>
                 set (snd (insertSPF e ctx req i h))"
    and new: "PipelineData c (AddrData (Some a)) \<notin> set h"
  shows "\<not> addr_InScope a \<and>
         addrRequest e ctx' (Some a) dm h' = (None, dm, h' @ [CtxDone ctx']) \<and>
         dataManager_Process e ctx' (AddrData (Some a)) dm h' =
           (if ctx_Done e h' ctx' then ((None, None), dm, h' @ [CtxDone ctx'])
            else ((if addr_Address a \<noteq> [] \<and>
                      filter_TestAndAdd e (h' @ [CtxDone ctx', CtxDone ctx']) (addr_Address a)
                   then None else Some (AddrData (Some a)), None),
                  dm,
                  h' @ [CtxDone ctx', CtxDone ctx'] @
                    (if addr_Address a \<noteq> [] then [FilterTestAndAdd (addr_Address a)] else [])))"
proof -
  have s: "\<not> addr_InScope a"
    using ev new findNamesAndAddresses_addr [of c a e ctx "ans_Data (dns_Records req ! i)" "dns_Domain req" h]
    by (auto simp add: insertTXT_def insertSOA_def insertSPF_def split: if_splits)
  have r: "addrRequest e x (Some a) dm g = (None, dm, g @ [CtxDone x])" for x g
    using s by (simp add: addrRequest_def Let_def)
  show ?thesis
    using s r by (simp add: dataManager_Process_def Let_def logError_def filterStep_def)
qed

text \<open>The address in an SPF payload of a TXT record, sent back to the data manager.\<close>

theorem payload_addresses_out_of_scope_witness:
  "\<not> addr_InScope addrTXT \<and>
   addrRequest envTXT 8 (Some addrTXT) \<lparr>queue = []\<rparr> [] = (None, \<lparr>queue = []\<rparr>, [] @ [CtxDone 8]) \<and>
   dataManager_Process envTXT 8 (AddrData (Some addrTXT)) \<lparr>queue = []\<rparr> [] =
     ((Some (AddrData (Some addrTXT)), None), \<lparr>queue = []\<rparr>,
      [CtxDone 8, CtxDone 8, FilterTestAndAdd ''192.0.2.1''])"
proof -
  have ev: "PipelineData 7 (AddrData (Some addrTXT)) \<in>
              set (snd (insertTXT envTXT 7 reqTXT 0 [])) \<union> set (snd (insertSOA envTXT 7 reqTXT 0 [])) \<union>
              set (snd (insertSPF envTXT 7 reqTXT 0 []))"
    by code_simp
  have new: "PipelineData 7 (AddrData (Some addrTXT)) \<notin> set []" by simp
  have a: "addr_Address addrTXT = ''192.0.2.1''" by (simp add: addrTXT_def)
  have d: "\<not> ctx_Done envTXT [] 8" by code_simp
  have t: "\<not> filter_TestAndAdd envTXT ([] @ [CtxDone 8, CtxDone 8]) ''192.0.2.1''" by code_simp
  from payload_addresses_out_of_scope [OF ev new, of 8 "\<lparr>queue = []\<rparr>" "[]"] a d t
  show ?thesis by simp
qed

section \<open>Properties of the ASN worker\<close>

subsection \<open>The poll loop\<close>





subsection \<open>C7: one infrastructure upsert for each queued request\<close>



subsection \<open>The poll loop without a hit, and the masks of the fallback\<close>












subsection \<open>C3: the fallback after thirty misses\<close>




section \<open>Properties of the subdomain classifier\<close>

subsection \<open>C4: the subdomain request and the recursion threshold\<close>

text \<open>
  Claim C4. Let \<open>Process\<close> of the classifier receive a \<open>DNSRequest\<close> with a context
  that is not done, a name in scope without a service label, and enough labels; let
  \<open>sub\<close> be its parent and \<open>times'\<close> the count the times manager returns for it. Let
  the parent be neither wildcard-suppressed (the wildcard test, run when the count is 1,
  says no; the wildcard set, asked when the count is above 1, does not have it) nor
  CNAME-suppressed (likewise with \<open>IsCNAMENode\<close> and the CNAME set). Then
  \<open>checkForSubdomains\<close> returns true. When the count is above \<open>MinForRecursive\<close> no
  \<open>SubdomainRequest\<close> is sent. Otherwise exactly one \<open>SubdomainRequest\<close> with the
  parent, the request's domain, tag and source and the count goes to the handlers, and it
  is also sent to the \<open>root\<close> channel exactly when the count is 1. In both cases the
  \<open>ResolvedRequest\<close> follows and the request is forwarded. The calls before these are
  the poll of the context and, when the count is 1, those of the wildcard test and the
  question to the graph.
\<close>

theorem classifier_emits_subdomain_request:
  assumes nd: "\<not> ctx_Done e h ctx"
    and scope: "IsDomainInScope e (dns_Name req)"
    and svc: "\<not> list_ex (serviceLabel e) (strings_Split (dns_Name req) (CHR ''.''))"
    and labels: "enoughLabels req"
    and sub: "sub = parentOf e req"
    and t: "times' = (case subdomains r sub of Some n \<Rightarrow> n + 1 | None \<Rightarrow> 1)"
    and w: "w = subWithinWildcard e ctx sub (dns_Domain req) (h @ [CtxDone ctx])"
    and nw1: "\<not> (times' = 1 \<and> fst w)"
    and nw2: "\<not> (times' > 1 \<and> stringset_Has e (withinWildcards r) sub)"
    and nc1: "\<not> (times' = 1 \<and> graph_IsCNAMENode e (snd w) ctx sub)"
    and nc2: "\<not> (times' > 1 \<and> stringset_Has e (cnames r) sub)"
    and sr: "subreq = \<lparr>sub_Name = sub, sub_Domain = dns_Domain req, sub_Tag = dns_Tag req,
                        sub_Source = dns_Source req, sub_Times = times'\<rparr>"
  shows "fst (checkForSubdomains e ctx req r (h @ [CtxDone ctx])) \<and>
         subdomainTask_Process e ctx (DNSData (Some req)) r h =
           ((Some (DNSData (Some req)), None),
            r\<lparr>subdomains := (subdomains r)(sub \<mapsto> times')\<rparr>,
            (if times' = 1 then snd w @ [IsCNAMENode ctx sub] else h @ [CtxDone ctx]) @
            (if times' > MinForRecursive e then []
             else if times' = 1 then [SendRequests (SubdomainData subreq), SendData ctx ''root'' (SubdomainData subreq)]
             else [SendRequests (SubdomainData subreq)]) @
            [SendRequests (ResolvedData
               \<lparr>res_Name = dns_Name req, res_Domain = dns_Domain req, res_Records = dns_Records req,
                res_Tag = dns_Tag req, res_Source = dns_Source req\<rparr>)])"
proof -
  have l: "\<not> length (strings_Split (dns_Name req) (CHR ''.'')) < 2"
    "\<not> int (length (strings_Split (dns_Name req) (CHR ''.''))) - 1 <
        int (length (strings_Split (dns_Domain req) (CHR ''.'')))"
    using labels by (simp_all add: enoughLabels_def)
  have s: "strings_TrimSpace e (strings_Join (drop 1 (strings_Split (dns_Name req) (CHR ''.''))) ''.'') = sub"
    by (simp add: sub parentOf_def)
  have c: "checkForSubdomains e ctx req r (h @ [CtxDone ctx]) =
      (True, r\<lparr>subdomains := (subdomains r)(sub \<mapsto> times')\<rparr>,
       (if times' = 1 then snd w @ [IsCNAMENode ctx sub] else h @ [CtxDone ctx]) @
       (if times' > MinForRecursive e then []
        else if times' = 1 then [SendRequests (SubdomainData subreq), SendData ctx ''root'' (SubdomainData subreq)]
        else [SendRequests (SubdomainData subreq)]))"
  proof (cases "times' = 1")
    case True
    with nw1 nc1 have "\<not> fst w" "\<not> graph_IsCNAMENode e (snd w) ctx sub" by simp_all
    with True show ?thesis
      unfolding checkForSubdomains_def Let_def s timesForSubdomain_def t [symmetric]
      using l by (cases w) (auto simp add: w [symmetric] sr)
  next
    case False
    with nw2 nc2 show ?thesis
      unfolding checkForSubdomains_def Let_def s timesForSubdomain_def t [symmetric]
      using l by (simp add: sr)
  qed
  show ?thesis
    using nd scope svc by (simp add: subdomainTask_Process_def c)
qed

text \<open>
  Scenario S5 with \<open>MinForRecursive\<close> 2: the first request sends the
  \<open>SubdomainRequest\<close> to the handlers and to \<open>root\<close>, the second to the handlers only,
  the third sends none; all three are forwarded.
\<close>

theorem classifier_emits_subdomain_request_witness:
  "subdomainTask_Process sampleEnum 7 (DNSData (Some (reqS5 ''a.sub.example.com''))) taskEmpty [] =
     ((Some (DNSData (Some (reqS5 ''a.sub.example.com''))), None),
      taskEmpty\<lparr>subdomains := (subdomains taskEmpty)(''sub.example.com'' \<mapsto> 1)\<rparr>,
      probesS5 @ [IsCNAMENode 7 ''sub.example.com'',
                  SendRequests (SubdomainData (subreqS5 1)),
                  SendData 7 ''root'' (SubdomainData (subreqS5 1)),
                  SendRequests (ResolvedData (resolvedS5 ''a.sub.example.com''))]) \<and>
   subdomainTask_Process sampleEnum 7 (DNSData (Some (reqS5 ''b.sub.example.com''))) (taskSeen 1) [] =
     ((Some (DNSData (Some (reqS5 ''b.sub.example.com''))), None),
      (taskSeen 1)\<lparr>subdomains := (subdomains (taskSeen 1))(''sub.example.com'' \<mapsto> 2)\<rparr>,
      [CtxDone 7, SendRequests (SubdomainData (subreqS5 2)),
       SendRequests (ResolvedData (resolvedS5 ''b.sub.example.com''))]) \<and>
   subdomainTask_Process sampleEnum 7 (DNSData (Some (reqS5 ''c.sub.example.com''))) (taskSeen 2) [] =
     ((Some (DNSData (Some (reqS5 ''c.sub.example.com''))), None),
      (taskSeen 2)\<lparr>subdomains := (subdomains (taskSeen 2))(''sub.example.com'' \<mapsto> 3)\<rparr>,
      [CtxDone 7, SendRequests (ResolvedData (resolvedS5 ''c.sub.example.com''))])"
proof -
  have nd: "\<not> ctx_Done sampleEnum [] 7" by code_simp
  have scope: "IsDomainInScope sampleEnum (dns_Name (reqS5 n))" for n by (simp add: sampleEnum_def)
  have m: "MinForRecursive sampleEnum = 2" by (simp add: sampleEnum_def)
  have w: "subWithinWildcard sampleEnum 7 ''sub.example.com'' ''example.com'' ([] @ [CtxDone 7]) =
             (False, probesS5)"
    by code_simp
  have c: "\<not> graph_IsCNAMENode sampleEnum h 7 s" for h s by (simp add: sampleEnum_def)
  have has: "\<not> stringset_Has sampleEnum {} s" for s by (simp add: stringset_Has_def)
  have f: "dns_Domain (reqS5 n) = ''example.com''" "dns_Tag (reqS5 n) = ''dns''"
    "dns_Source (reqS5 n) = ''DNS''" "dns_Name (reqS5 n) = n"
    "dns_Records (reqS5 n) = [\<lparr>ans_Name = n, ans_Type = 1, ans_Data = ''192.0.2.1''\<rparr>]" for n
    by (simp_all add: reqS5_def)
  have a: "subdomainTask_Process sampleEnum 7 (DNSData (Some (reqS5 ''a.sub.example.com''))) taskEmpty [] =
     ((Some (DNSData (Some (reqS5 ''a.sub.example.com''))), None),
      taskEmpty\<lparr>subdomains := (subdomains taskEmpty)(''sub.example.com'' \<mapsto> 1)\<rparr>,
      probesS5 @ [IsCNAMENode 7 ''sub.example.com'',
                  SendRequests (SubdomainData (subreqS5 1)),
                  SendData 7 ''root'' (SubdomainData (subreqS5 1)),
                  SendRequests (ResolvedData (resolvedS5 ''a.sub.example.com''))])"
  proof -
    have svc: "\<not> list_ex (serviceLabel sampleEnum) (strings_Split (dns_Name (reqS5 ''a.sub.example.com'')) (CHR ''.''))"
      by code_simp
    have labels: "enoughLabels (reqS5 ''a.sub.example.com'')" by code_simp
    have sub: "''sub.example.com'' = parentOf sampleEnum (reqS5 ''a.sub.example.com'')" by code_simp
    have t: "(1::int) = (case subdomains taskEmpty ''sub.example.com'' of Some n \<Rightarrow> n + 1 | None \<Rightarrow> 1)"
      by (simp add: taskEmpty_def)
    have w': "(False, probesS5) =
        subWithinWildcard sampleEnum 7 ''sub.example.com'' (dns_Domain (reqS5 ''a.sub.example.com'')) ([] @ [CtxDone 7])"
      using w by (simp add: f)
    show ?thesis
      using classifier_emits_subdomain_request [OF nd scope svc labels sub t w' _ _ _ _ refl] c m
      by (simp add: f subreqS5_def resolvedS5_def)
  qed
  have b: "subdomainTask_Process sampleEnum 7 (DNSData (Some (reqS5 ''b.sub.example.com''))) (taskSeen 1) [] =
     ((Some (DNSData (Some (reqS5 ''b.sub.example.com''))), None),
      (taskSeen 1)\<lparr>subdomains := (subdomains (taskSeen 1))(''sub.example.com'' \<mapsto> 2)\<rparr>,
      [CtxDone 7, SendRequests (SubdomainData (subreqS5 2)),
       SendRequests (ResolvedData (resolvedS5 ''b.sub.example.com''))])"
  proof -
    have svc: "\<not> list_ex (serviceLabel sampleEnum) (strings_Split (dns_Name (reqS5 ''b.sub.example.com'')) (CHR ''.''))"
      by code_simp
    have labels: "enoughLabels (reqS5 ''b.sub.example.com'')" by code_simp
    have sub: "''sub.example.com'' = parentOf sampleEnum (reqS5 ''b.sub.example.com'')" by code_simp
    have t: "(2::int) = (case subdomains (taskSeen 1) ''sub.example.com'' of Some n \<Rightarrow> n + 1 | None \<Rightarrow> 1)"
      by (simp add: taskSeen_def)
    show ?thesis
      using classifier_emits_subdomain_request [OF nd scope svc labels sub t refl _ _ _ _ refl] has m
      by (simp add: f subreqS5_def resolvedS5_def taskSeen_def)
  qed
  have c3: "subdomainTask_Process sampleEnum 7 (DNSData (Some (reqS5 ''c.sub.example.com''))) (taskSeen 2) [] =
     ((Some (DNSData (Some (reqS5 ''c.sub.example.com''))), None),
      (taskSeen 2)\<lparr>subdomains := (subdomains (taskSeen 2))(''sub.example.com'' \<mapsto> 3)\<rparr>,
      [CtxDone 7, SendRequests (ResolvedData (resolvedS5 ''c.sub.example.com''))])"
  proof -
    have svc: "\<not> list_ex (serviceLabel sampleEnum) (strings_Split (dns_Name (reqS5 ''c.sub.example.com'')) (CHR ''.''))"
      by code_simp
    have labels: "enoughLabels (reqS5 ''c.sub.example.com'')" by code_simp
    have sub: "''sub.example.com'' = parentOf sampleEnum (reqS5 ''c.sub.example.com'')" by code_simp
    have t: "(3::int) = (case subdomains (taskSeen 2) ''sub.example.com'' of Some n \<Rightarrow> n + 1 | None \<Rightarrow> 1)"
      by (simp add: taskSeen_def)
    show ?thesis
      using classifier_emits_subdomain_request [OF nd scope svc labels sub t refl _ _ _ _ refl] has m
      by (simp add: f subreqS5_def resolvedS5_def taskSeen_def)
  qed
  from a b c3 show ?thesis by blast
qed

subsection \<open>What a call of the classifier does to its sets and counts\<close>

lemma checkForSubdomains_task:
  assumes "checkForSubdomains e ctx req r h = (b, r', h')"
  shows "r' = r \<or>
         (enoughLabels req \<and>
          subdomains r' = (subdomains r)(parentOf e req \<mapsto> (case subdomains r (parentOf e req) of Some n \<Rightarrow> n + 1 | None \<Rightarrow> 1)) \<and>
          ((withinWildcards r' = withinWildcards r \<and> cnames r' = cnames r) \<or>
           ((case subdomains r (parentOf e req) of Some n \<Rightarrow> n + 1 | None \<Rightarrow> 1) = 1 \<and> \<not> b \<and>
            ((withinWildcards r' = stringset_Insert e (withinWildcards r) (parentOf e req) \<and> cnames r' = cnames r) \<or>
             (cnames r' = stringset_Insert e (cnames r) (parentOf e req) \<and> withinWildcards r' = withinWildcards r)))))"
  using assms
  unfolding checkForSubdomains_def Let_def timesForSubdomain_def parentOf_def [symmetric] enoughLabels_def
  by (auto split: if_splits prod.splits)

lemma suppressed_checkForSubdomains:
  assumes c: "checkForSubdomains e ctx req r h = (b, r', h')" and s: "suppressed e r sub"
  shows "suppressed e r' sub"
proof -
  from s obtain n where n: "subdomains r sub = Some n" "1 \<le> n"
    and m: "stringset_Has e (withinWildcards r) sub \<or> stringset_Has e (cnames r) sub"
    by (auto simp add: suppressed_def)
  from checkForSubdomains_task [OF c] show ?thesis
  proof
    assume "r' = r"
    with s show ?thesis by simp
  next
    assume a: "enoughLabels req \<and>
          subdomains r' = (subdomains r)(parentOf e req \<mapsto> (case subdomains r (parentOf e req) of Some n \<Rightarrow> n + 1 | None \<Rightarrow> 1)) \<and>
          ((withinWildcards r' = withinWildcards r \<and> cnames r' = cnames r) \<or>
           ((case subdomains r (parentOf e req) of Some n \<Rightarrow> n + 1 | None \<Rightarrow> 1) = 1 \<and> \<not> b \<and>
            ((withinWildcards r' = stringset_Insert e (withinWildcards r) (parentOf e req) \<and> cnames r' = cnames r) \<or>
             (cnames r' = stringset_Insert e (cnames r) (parentOf e req) \<and> withinWildcards r' = withinWildcards r))))"
    then have "\<exists>k. subdomains r' sub = Some k \<and> 1 \<le> k"
      using n by (cases "sub = parentOf e req") auto
    moreover have "stringset_Has e (withinWildcards r') sub \<or> stringset_Has e (cnames r') sub"
      using a m by (auto simp add: stringset_Has_def stringset_Insert_def)
    ultimately show ?thesis by (simp add: suppressed_def)
  qed
qed

lemma suppressed_Process:
  assumes "subdomainTask_Process e c d r h = (out, r', h')" and "suppressed e r sub"
  shows "suppressed e r' sub"
  using assms
  by (auto simp add: subdomainTask_Process_def Let_def
      split: if_splits data.splits option.splits prod.splits bool.splits
      dest: suppressed_checkForSubdomains)

lemma suppressed_reach: "reach e r r' \<Longrightarrow> suppressed e r sub \<Longrightarrow> suppressed e r' sub"
  by (induction rule: reach.induct) (auto dest: suppressed_Process)

lemma suppressed_not_forwarded:
  assumes s: "suppressed e r sub" and l: "enoughLabels req" and p: "parentOf e req = sub"
  shows "\<exists>n. subdomains r sub = Some n \<and> 1 \<le> n \<and>
             checkForSubdomains e ctx req r h = (False, r\<lparr>subdomains := (subdomains r)(sub \<mapsto> n + 1)\<rparr>, h)"
proof -
  from s obtain n where n: "subdomains r sub = Some n" "1 \<le> n"
    and m: "stringset_Has e (withinWildcards r) sub \<or> stringset_Has e (cnames r) sub"
    by (auto simp add: suppressed_def)
  have "checkForSubdomains e ctx req r h = (False, r\<lparr>subdomains := (subdomains r)(sub \<mapsto> n + 1)\<rparr>, h)"
    using l n m
    unfolding checkForSubdomains_def Let_def timesForSubdomain_def parentOf_def [symmetric] enoughLabels_def p
    by auto
  with n show ?thesis by blast
qed

subsection \<open>C8: a parent put into the wildcard set or the CNAME set stays suppressed\<close>

text \<open>
  Claim C8, for calls of the classifier made one after the other. Let a call of
  \<open>checkForSubdomains\<close> put the parent \<open>sub\<close> of its request into the wildcard set
  or into the CNAME set. Then the count returned for that call was 1 and the call returned
  false. After any number of later calls of \<open>Process\<close>, a request with the same parent
  finds a count of at least 1, so its own count is above 1, and
  \<open>checkForSubdomains\<close> returns false for it without a single call: no
  \<open>SubdomainRequest\<close> is sent, and \<open>Process\<close> only polls the context, so no
  \<open>ResolvedRequest\<close> is sent either.
\<close>

theorem suppression_is_sticky:
  assumes first: "checkForSubdomains e ctx req r h = (b, r1, h1)"
    and sub: "sub = parentOf e req"
    and ins: "(\<not> stringset_Has e (withinWildcards r) sub \<and> stringset_Has e (withinWildcards r1) sub) \<or>
              (\<not> stringset_Has e (cnames r) sub \<and> stringset_Has e (cnames r1) sub)"
    and later: "reach e r1 r2"
    and l': "enoughLabels req'"
    and p': "parentOf e req' = sub"
  shows "(case subdomains r sub of Some n \<Rightarrow> n + 1 | None \<Rightarrow> 1) = 1 \<and> \<not> b \<and>
         (\<exists>n. subdomains r2 sub = Some n \<and> 1 \<le> n \<and>
              checkForSubdomains e ctx' req' r2 h' =
                (False, r2\<lparr>subdomains := (subdomains r2)(sub \<mapsto> n + 1)\<rparr>, h')) \<and>
         snd (snd (subdomainTask_Process e ctx' (DNSData (Some req')) r2 h')) = h' @ [CtxDone ctx']"
proof -
  from checkForSubdomains_task [OF first] ins
  have t: "(case subdomains r sub of Some n \<Rightarrow> n + 1 | None \<Rightarrow> 1) = 1" and nb: "\<not> b"
    and s1: "subdomains r1 = (subdomains r)(sub \<mapsto> 1)"
    unfolding sub by auto
  have "suppressed e r1 sub"
    using ins s1 by (auto simp add: suppressed_def)
  then have s2: "suppressed e r2 sub"
    using later by (rule suppressed_reach [rotated])
  have c: "\<exists>n. subdomains r2 sub = Some n \<and> 1 \<le> n \<and>
              checkForSubdomains e x req' r2 g =
                (False, r2\<lparr>subdomains := (subdomains r2)(sub \<mapsto> n + 1)\<rparr>, g)" for x g
    using suppressed_not_forwarded [OF s2 l' p'] by blast
  have "snd (snd (subdomainTask_Process e ctx' (DNSData (Some req')) r2 h')) = h' @ [CtxDone ctx']"
    using c [of ctx' "h' @ [CtxDone ctx']"]
    by (auto simp add: subdomainTask_Process_def Let_def)
  with t nb c [of ctx' h'] show ?thesis by blast
qed

text \<open>
  Scenario S6: \<open>wild.example.com\<close> is found to be a wildcard when
  \<open>a.wild.example.com\<close> arrives; for \<open>b.wild.example.com\<close> the classifier only polls
  its context.
\<close>

theorem suppression_is_sticky_witness:
  "\<not> fst (checkForSubdomains envWild 7 (reqS6 ''a.wild.example.com'') taskEmpty []) \<and>
   snd (snd (subdomainTask_Process envWild 8 (DNSData (Some (reqS6 ''b.wild.example.com'')))
               (fst (snd (checkForSubdomains envWild 7 (reqS6 ''a.wild.example.com'') taskEmpty []))) [])) =
     [] @ [CtxDone 8]"
proof -
  let ?c = "checkForSubdomains envWild 7 (reqS6 ''a.wild.example.com'') taskEmpty []"
  have first: "?c = (fst ?c, fst (snd ?c), snd (snd ?c))" by simp
  have sub: "''wild.example.com'' = parentOf envWild (reqS6 ''a.wild.example.com'')" by code_simp
  have ins: "(\<not> stringset_Has envWild (withinWildcards taskEmpty) ''wild.example.com'' \<and>
              stringset_Has envWild (withinWildcards (fst (snd ?c))) ''wild.example.com'') \<or>
             (\<not> stringset_Has envWild (cnames taskEmpty) ''wild.example.com'' \<and>
              stringset_Has envWild (cnames (fst (snd ?c))) ''wild.example.com'')"
    by code_simp
  have l': "enoughLabels (reqS6 ''b.wild.example.com'')" by code_simp
  have p': "parentOf envWild (reqS6 ''b.wild.example.com'') = ''wild.example.com''" by code_simp
  from suppression_is_sticky [OF first sub ins reach_refl l' p', of 8 "[]"]
  show ?thesis by blast
qed

subsection \<open>C5: the retries after the trusted pool's answer\<close>

text \<open>
  Claim C5 says that the retries of the second half of \<open>fwdQuery\<close> go through the
  trusted pool. In the code they go through \<open>Resolvers()\<close>, the general pool, as the
  retries of the first half do. Here the trusted pool fails the query: the next query is
  sent to the general pool, its answer is what \<open>fwdQuery\<close> returns, and that answer of
  the general pool is what the trusted pool's wildcard detector is asked about.
\<close>

theorem trusted_retry_goes_to_general_pool:
  "fwdQuery envTrustedFails 7 ''a.sub.example.com'' 1 [] =
     (Inr \<lparr>Rcode = 0, Answer = [''answer of the general pool'']\<rparr>,
      [QueryBlocking General 7 (''a.sub.example.com'', 1),
       QueryBlocking Trusted 7 (''a.sub.example.com'', 1),
       QueryBlocking General 7 (''a.sub.example.com'', 1)]) \<and>
   subWithinWildcard envTrustedFails 7 ''sub.example.com'' ''example.com'' [] =
     (True,
      [CtxDone 7,
       QueryBlocking General 7 (''a.sub.example.com'', 1),
       QueryBlocking Trusted 7 (''a.sub.example.com'', 1),
       QueryBlocking General 7 (''a.sub.example.com'', 1),
       WildcardDetected 7 \<lparr>Rcode = 0, Answer = [''answer of the general pool'']\<rparr> ''example.com''])"
  by code_simp

end
